theory Spec2Isabelle
  imports Main "HOL-Library.AList" "HOL-Library.Sublist" "HOL-Library.Multiset"
begin

section \<open>The filesystem below the working directory\<close>

text \<open>
  \<^verbatim>\<open>cleanup_root.py\<close> talks to the operating system through six calls:
  \<^verbatim>\<open>os.listdir\<close>, \<^verbatim>\<open>os.path.isfile\<close>, \<^verbatim>\<open>os.path.exists\<close>, \<^verbatim>\<open>os.path.join\<close>,
  \<^verbatim>\<open>os.remove\<close> and \<^verbatim>\<open>os.rename\<close>. The filesystem is a tree with the working
  directory at its top. A node is a regular file with its content, a directory with its
  read and write permission bits and its entries in listing order, or a symbolic link
  with its target path. A path is a string, resolved one component at a time; \<^verbatim>\<open>..\<close> at
  the top and an absolute path resolve at the top, as they do in the root directory.
  Left out: hard links, search permission, ownership and sticky directories, the
  meaning of a trailing slash, and any other process changing the tree while the script
  runs.
\<close>

datatype node = File string | Dir bool bool "(string \<times> node) list" | Link string

datatype os_error =
  FileNotFoundError | NotADirectoryError | IsADirectoryError | PermissionError | OSError

text \<open>The values a Python call can hand back to its caller, as far as they matter here.\<close>

datatype pyval = PyNone | PyInt int | PyTuple "pyval list"

fun components :: "string \<Rightarrow> string list" where
  "components [] = [[]]"
| "components (c # cs) =
     (if c = CHR ''/'' then [] # components cs
      else (case components cs of [] \<Rightarrow> [[c]] | x # xs \<Rightarrow> (c # x) # xs))"

text \<open>Empty components (doubled or trailing slashes) and \<^verbatim>\<open>.\<close> name the directory itself.\<close>

definition split_path :: "string \<Rightarrow> string list" where
  "split_path p = filter (\<lambda>c. c \<noteq> [] \<and> c \<noteq> ''.'') (components p)"

definition absolute :: "string \<Rightarrow> bool" where
  "absolute p = (p \<noteq> [] \<and> hd p = CHR ''/'')"

text \<open>
  \<open>lookup_node t p\<close> is the node at the end of the chain of directory entries \<open>p\<close>, with
  no link followed: the directory entry itself.
\<close>

fun lookup_node :: "node \<Rightarrow> string list \<Rightarrow> node option" where
  "lookup_node n [] = Some n"
| "lookup_node (Dir r w es) (d # ds) =
     (case map_of es d of None \<Rightarrow> None | Some n \<Rightarrow> lookup_node n ds)"
| "lookup_node (File c) (d # ds) = None"
| "lookup_node (Link x) (d # ds) = None"

text \<open>
  Path resolution as the kernel does it. \<open>cur\<close> is the chain of entries of the directory
  reached so far, the list holds the components still to resolve. A link met on the way
  is replaced by the components of its target, resolved from the directory that holds
  the link; the last component is followed only when \<open>follow\<close> is set (\<^verbatim>\<open>stat\<close>, not
  \<^verbatim>\<open>lstat\<close>). \<open>n\<close> bounds the number of links followed (\<^verbatim>\<open>ELOOP\<close>). The result is the
  chain of entries of the node found.
\<close>

fun walk :: "nat \<Rightarrow> node \<Rightarrow> bool \<Rightarrow> string list \<Rightarrow> string list \<Rightarrow> os_error + string list" where
  "walk n t follow cur [] = Inr cur"
| "walk n t follow cur (c # cs) =
     (case lookup_node t cur of
        None \<Rightarrow> Inl FileNotFoundError
      | Some (File x) \<Rightarrow> Inl NotADirectoryError
      | Some (Link x) \<Rightarrow> Inl NotADirectoryError
      | Some (Dir r w es) \<Rightarrow>
          if c = ''..'' then walk n t follow (butlast cur) cs
          else (case map_of es c of
                  None \<Rightarrow> Inl FileNotFoundError
                | Some (File x) \<Rightarrow> walk n t follow (cur @ [c]) cs
                | Some (Dir r' w' es') \<Rightarrow> walk n t follow (cur @ [c]) cs
                | Some (Link x) \<Rightarrow>
                    if cs = [] \<and> \<not> follow then Inr (cur @ [c])
                    else if x = [] then Inl FileNotFoundError
                    else (case n of
                            0 \<Rightarrow> Inl OSError
                          | Suc m \<Rightarrow>
                              walk m t follow (if absolute x then [] else cur)
                                (split_path x @ cs))))"

text \<open>Linux follows at most 40 links in one resolution.\<close>

definition max_links :: nat where
  "max_links = 40"

text \<open>What \<^verbatim>\<open>os.stat\<close> finds at a path: the node behind every link, if there is one.\<close>

definition node_at :: "node \<Rightarrow> string \<Rightarrow> node option" where
  "node_at t p =
     (case walk max_links t True [] (split_path p) of
        Inl e \<Rightarrow> None
      | Inr q \<Rightarrow> lookup_node t q)"

text \<open>\<open>update_dir f t p\<close> rewrites the entries of the directory at \<open>p\<close> with \<open>f\<close>.\<close>

fun update_dir ::
  "((string \<times> node) list \<Rightarrow> (string \<times> node) list) \<Rightarrow> node \<Rightarrow> string list \<Rightarrow> node" where
  "update_dir f (File c) ds = File c"
| "update_dir f (Link x) ds = Link x"
| "update_dir f (Dir r w es) [] = Dir r w (f es)"
| "update_dir f (Dir r w es) (d # ds) =
     (case map_of es d of None \<Rightarrow> Dir r w es
      | Some n \<Rightarrow> Dir r w (AList.update d (update_dir f n ds) es))"

text \<open>
  \<^verbatim>\<open>os.path.exists\<close> and \<^verbatim>\<open>os.path.isfile\<close> call \<^verbatim>\<open>os.stat\<close> and turn its error into
  \<^verbatim>\<open>False\<close>: a link counts for what it leads to, and a dangling link does not exist.
\<close>

definition os_path_exists :: "node \<Rightarrow> string \<Rightarrow> bool" where
  "os_path_exists t p = (node_at t p \<noteq> None)"

definition os_path_isfile :: "node \<Rightarrow> string \<Rightarrow> bool" where
  "os_path_isfile t p = (case node_at t p of Some (File c) \<Rightarrow> True | _ \<Rightarrow> False)"

text \<open>\<^verbatim>\<open>os.listdir\<close> needs a directory that the process may read.\<close>

definition os_listdir :: "node \<Rightarrow> string \<Rightarrow> os_error + string list" where
  "os_listdir t p =
     (case walk max_links t True [] (split_path p) of
        Inl e \<Rightarrow> Inl e
      | Inr q \<Rightarrow>
          (case lookup_node t q of
             Some (Dir r w es) \<Rightarrow> if r then Inr (map fst es) else Inl PermissionError
           | _ \<Rightarrow> Inl NotADirectoryError))"

text \<open>
  \<^verbatim>\<open>posixpath.join(a, b)\<close>: an absolute \<open>b\<close> replaces \<open>a\<close>; otherwise \<open>b\<close> is appended,
  with a separator unless \<open>a\<close> is empty or already ends in one.
\<close>

definition os_path_join :: "string \<Rightarrow> string \<Rightarrow> string" where
  "os_path_join a b =
     (if b \<noteq> [] \<and> hd b = CHR ''/'' then b
      else if a = [] \<or> last a = CHR ''/'' then a @ b
      else a @ CHR ''/'' # b)"

text \<open>
  \<^verbatim>\<open>os.remove\<close> is \<^verbatim>\<open>unlink(2)\<close>. The directory of the entry is resolved through
  links, the entry itself is not followed: it must exist, its directory must be
  writable, and it must not be a directory (\<^verbatim>\<open>EISDIR\<close>, as Linux reports it). A link
  is removed, not its target. A failed call leaves the tree as it was.
\<close>

definition os_remove :: "node \<Rightarrow> string \<Rightarrow> os_error + node" where
  "os_remove t p =
     (let cs = split_path p in
      if cs = [] \<or> last cs = ''..'' then Inl IsADirectoryError
      else (case walk max_links t True [] (butlast cs) of
              Inl e \<Rightarrow> Inl e
            | Inr q \<Rightarrow>
                (case lookup_node t q of
                   Some (Dir r w es) \<Rightarrow>
                     (case map_of es (last cs) of
                        None \<Rightarrow> Inl FileNotFoundError
                      | Some n \<Rightarrow>
                          if \<not> w then Inl PermissionError
                          else (case n of
                                  Dir r' w' es' \<Rightarrow> Inl IsADirectoryError
                                | _ \<Rightarrow> Inr (update_dir (AList.delete (last cs)) t q)))
                 | _ \<Rightarrow> Inl NotADirectoryError)))"

text \<open>
  \<^verbatim>\<open>os.rename\<close> is \<^verbatim>\<open>rename(2)\<close>. Both directories are resolved through links, the
  two entries are not followed. The source must exist and the directory of the
  destination must exist. Renaming an entry to itself succeeds and does nothing; a
  directory cannot move below itself. Both directories must be writable, and so must a
  directory that moves to another parent. An existing destination is replaced only by a
  node of its own kind (a directory only when it is empty; \<open>rename_onto\<close> gives the
  error otherwise). The node moves with everything below it. A failed call leaves the
  tree as it was.
\<close>

fun rename_onto :: "node \<Rightarrow> node option \<Rightarrow> os_error option" where
  "rename_onto (Dir r w es) (Some (Dir r' w' (e # es'))) = Some OSError"
| "rename_onto (Dir r w es) (Some (Dir r' w' [])) = None"
| "rename_onto (Dir r w es) (Some old) = Some NotADirectoryError"
| "rename_onto n (Some (Dir r w es)) = Some IsADirectoryError"
| "rename_onto n old = None"

fun locked_dir :: "node \<Rightarrow> bool" where
  "locked_dir (Dir r w es) = (\<not> w)"
| "locked_dir n = False"

definition os_rename :: "node \<Rightarrow> string \<Rightarrow> string \<Rightarrow> os_error + node" where
  "os_rename t src dst =
     (let s = split_path src; d = split_path dst in
      if s = [] \<or> d = [] \<or> last s = ''..'' \<or> last d = ''..'' then Inl OSError
      else (case walk max_links t True [] (butlast s) of
              Inl e \<Rightarrow> Inl e
            | Inr sq \<Rightarrow>
                (case lookup_node t sq of
                   Some (Dir sr sw ses) \<Rightarrow>
                     (case map_of ses (last s) of
                        None \<Rightarrow> Inl FileNotFoundError
                      | Some n \<Rightarrow>
                          (case walk max_links t True [] (butlast d) of
                             Inl e \<Rightarrow> Inl e
                           | Inr dq \<Rightarrow>
                               (case lookup_node t dq of
                                  Some (Dir dr dw des) \<Rightarrow>
                                    if sq @ [last s] = dq @ [last d] then Inr t
                                    else if prefix (sq @ [last s]) dq then Inl OSError
                                    else if \<not> sw \<or> \<not> dw then Inl PermissionError
                                    else if sq \<noteq> dq \<and> locked_dir n then Inl PermissionError
                                    else (case rename_onto n (map_of des (last d)) of
                                            Some e \<Rightarrow> Inl e
                                          | None \<Rightarrow>
                                              Inr (update_dir (AList.update (last d) n)
                                                    (update_dir (AList.delete (last s)) t sq)
                                                    dq))
                                | _ \<Rightarrow> Inl NotADirectoryError)))
                 | _ \<Rightarrow> Inl NotADirectoryError)))"

section \<open>The script\<close>

text \<open>
  The dictionary literal of lines 7 to 66, in insertion order (the order in which
  \<^verbatim>\<open>mapping.items()\<close> iterates).
\<close>

definition mapping :: "(string \<times> string list) list" where
  "mapping = [
  (''client/src/components/ui/'',
    [''accordion.tsx'', ''alert-dialog.tsx'', ''alert.tsx'', ''aspect-ratio.tsx'',
     ''avatar.tsx'', ''badge.tsx'', ''breadcrumb.tsx'', ''button-group.tsx'',
     ''button.tsx'', ''calendar.tsx'', ''card.tsx'', ''carousel.tsx'', ''chart.tsx'',
     ''checkbox.tsx'', ''collapsible.tsx'', ''command.tsx'', ''context-menu.tsx'',
     ''dialog.tsx'', ''drawer.tsx'', ''dropdown-menu.tsx'', ''empty.tsx'', ''field.tsx'',
     ''form.tsx'', ''hover-card.tsx'', ''input-group.tsx'', ''input-otp.tsx'',
     ''input.tsx'', ''item.tsx'', ''kbd.tsx'', ''label.tsx'', ''menubar.tsx'',
     ''navigation-menu.tsx'', ''pagination.tsx'', ''popover.tsx'', ''progress.tsx'',
     ''radio-group.tsx'', ''resizable.tsx'', ''scroll-area.tsx'', ''select.tsx'',
     ''separator.tsx'', ''sheet.tsx'', ''sidebar.tsx'', ''skeleton.tsx'', ''slider.tsx'',
     ''sonner.tsx'', ''spinner.tsx'', ''switch.tsx'', ''table.tsx'', ''tabs.tsx'',
     ''textarea.tsx'', ''toggle-group.tsx'', ''toggle.tsx'', ''tooltip.tsx'']),
  (''server/'',
    [''accountSecurity.ts'', ''adminRouter.ts'', ''auth.comprehensive.test.ts'',
     ''auth.logout.test.ts'', ''auth.test.ts'', ''auth.ts'', ''authRouter.ts'',
     ''cryptoWalletRouter.ts'', ''cryptoWalletSystem.ts'', ''currencyExchange.ts'',
     ''db.ts'', ''dbInit.ts'', ''degensdenRouter.ts'', ''degensdenSlots.ts'',
     ''emailVerification.ts'', ''gameHistoryTracking.ts'', ''gameLogic.test.ts'',
     ''gameLogic.ts'', ''games.ts'', ''leaderboardRouter.ts'', ''leaderboardSystem.ts'',
     ''liveFeatures.ts'', ''liveRouter.ts'', ''osrsDepositWithdraw.ts'',
     ''osrsGamblingFeatures.ts'', ''osrsGamblingRouter.ts'', ''osrsSystem.ts'',
     ''passwordReset.ts'', ''provablyFair.ts'', ''qrcodeSystem.ts'', ''routers.ts'',
     ''securityMiddleware.ts'', ''storage.ts'', ''trustWalletConfig.ts'',
     ''trustWalletRouter.ts'', ''updateModule.ts'', ''userStatsComprehensive.ts'',
     ''userStatsRouter.ts'', ''userStatsSystem.ts'', ''vipAndLeaderboard.test.ts'',
     ''vipProgressRouter.ts'', ''vipProgressSystem.ts'', ''vipProgressVisualization.ts'',
     ''wagerSystem.ts'', ''wallet.comprehensive.test.ts'', ''wallet.test.ts'',
     ''wallet.ts'', ''walletRouter.ts'']),
  (''server/_core/'',
    [''advancedRateLimiter.ts'', ''config.ts'', ''context.ts'', ''cookies.ts'',
     ''dataApi.ts'', ''env.ts'', ''errorHandler.ts'', ''imageGeneration.ts'', ''index.ts'',
     ''llm.ts'', ''logger.ts'', ''map.ts'', ''notification.ts'', ''oauth.ts'', ''sdk.ts'',
     ''systemRouter.ts'', ''trpc.ts'', ''vite.ts'', ''voiceTranscription.ts'']),
  (''server/_core/types/'',
    [''cookie.d.ts'', ''manusTypes.ts'']),
  (''shared/'',
    [''const.ts'', ''types.ts'']),
  (''shared/_core/'',
    [''errors.ts'']),
  (''drizzle/'',
    [''schema.ts'', ''relations.ts'']),
  (''client/src/'',
    [''App.tsx'', ''main.tsx'', ''index.css'']),
  (''client/'',
    [''index.html'']),
  (''client/src/components/'',
    [''DashboardLayout.tsx'', ''DashboardLayoutSkeleton.tsx'', ''ErrorBoundary.tsx''])]"

text \<open>
  What a run has done so far: the tree, the lines printed, and the two local counters.
  An exception leaves with the state at the raise.
\<close>

record state =
  fs :: node
  out :: "string list"
  deleted_count :: int
  moved_count :: int

type_synonym 'a result = "(os_error \<times> state) + 'a"

text \<open>Python's \<^verbatim>\<open>str\<close> of an integer, as the f-string of line 87 formats the counters.\<close>

definition digit_char :: "nat \<Rightarrow> char" where
  "digit_char n = char_of (48 + n)"

function str_nat :: "nat \<Rightarrow> string" where
  "str_nat n = (if n < 10 then [digit_char n] else str_nat (n div 10) @ [digit_char (n mod 10)])"
  by pat_completeness auto
termination
  by (relation "measure id") auto

declare str_nat.simps [simp del]

definition str_int :: "int \<Rightarrow> string" where
  "str_int i = (if i < 0 then CHR ''-'' # str_nat (nat (- i)) else str_nat (nat i))"

definition removing_msg :: "string \<Rightarrow> string \<Rightarrow> string" where
  "removing_msg filename target_dir =
     ''Removing duplicate: '' @ filename @ '' (already in '' @ target_dir @ '')''"

definition moving_msg :: "string \<Rightarrow> string \<Rightarrow> string" where
  "moving_msg filename target_dir = ''Moving '' @ filename @ '' to '' @ target_dir"

definition finished_msg :: "int \<Rightarrow> int \<Rightarrow> string" where
  "finished_msg d m = ''Cleanup finished. Deleted: '' @ str_int d @ '', Moved: '' @ str_int m"

definition print :: "string \<Rightarrow> state \<Rightarrow> state" where
  "print line s = s\<lparr>out := out s @ [line]\<rparr>"

text \<open>Lines 73 to 85, the body of the inner loop. Each message is printed before its call.\<close>

definition process_file :: "string \<Rightarrow> string \<Rightarrow> state \<Rightarrow> state result" where
  "process_file target_dir filename s =
     (if os_path_exists (fs s) filename then
        let target_path = os_path_join target_dir filename in
        if os_path_exists (fs s) target_path then
          let s1 = print (removing_msg filename target_dir) s in
          (case os_remove (fs s1) filename of
             Inl e \<Rightarrow> Inl (e, s1)
           | Inr t \<Rightarrow> Inr (s1\<lparr>fs := t, deleted_count := deleted_count s1 + 1\<rparr>))
        else
          let s1 = print (moving_msg filename target_dir) s in
          (case os_rename (fs s1) filename target_path of
             Inl e \<Rightarrow> Inl (e, s1)
           | Inr t \<Rightarrow> Inr (s1\<lparr>fs := t, moved_count := moved_count s1 + 1\<rparr>))
      else Inr s)"

text \<open>Line 72, the loop over the filenames of one directory.\<close>

fun for_files :: "string \<Rightarrow> string list \<Rightarrow> state \<Rightarrow> state result" where
  "for_files target_dir [] s = Inr s"
| "for_files target_dir (filename # files) s =
     (case process_file target_dir filename s of
        Inl x \<Rightarrow> Inl x
      | Inr s' \<Rightarrow> for_files target_dir files s')"

text \<open>Line 71, the loop over the items of the dictionary.\<close>

fun for_items :: "(string \<times> string list) list \<Rightarrow> state \<Rightarrow> state result" where
  "for_items [] s = Inr s"
| "for_items ((target_dir, files) # items) s =
     (case for_files target_dir files s of
        Inl x \<Rightarrow> Inl x
      | Inr s' \<Rightarrow> for_items items s')"

text \<open>Line 5: the regular files of the working directory.\<close>

definition root_files_of :: "node \<Rightarrow> os_error + string list" where
  "root_files_of t =
     (case os_listdir t ''.'' of
        Inl e \<Rightarrow> Inl e
      | Inr names \<Rightarrow> Inr (filter (os_path_isfile t) names))"

definition start :: "node \<Rightarrow> state" where
  "start t = \<lparr>fs = t, out = [], deleted_count = 0, moved_count = 0\<rparr>"

text \<open>
  Lines 7 to 87 for a dictionary \<open>m\<close>, with the list of line 5 as the parameter
  \<open>root_files\<close>. The function has no \<^verbatim>\<open>return\<close> statement, so the caller receives
  \<^verbatim>\<open>None\<close>; the state is kept beside it so that the tree, the output and the final
  values of the counters can be spoken about.
\<close>

definition cleanup_with ::
  "(string \<times> string list) list \<Rightarrow> string list \<Rightarrow> node \<Rightarrow> (state \<times> pyval) result" where
  "cleanup_with m root_files t =
     (case for_items m (start t) of
        Inl x \<Rightarrow> Inl x
      | Inr s \<Rightarrow> Inr (print (finished_msg (deleted_count s) (moved_count s)) s, PyNone))"

definition cleanup_body :: "string list \<Rightarrow> node \<Rightarrow> (state \<times> pyval) result" where
  "cleanup_body root_files t = cleanup_with mapping root_files t"

definition cleanup :: "node \<Rightarrow> (state \<times> pyval) result" where
  "cleanup t =
     (case root_files_of t of
        Inl e \<Rightarrow> Inl (e, start t)
      | Inr root_files \<Rightarrow> cleanup_body root_files t)"

section \<open>Notions for stating the properties\<close>

text \<open>
  The pairs (target directory, filename) in the order in which the nested iteration
  visits them, and that iteration as a single loop over these pairs (\<open>for_items_run\<close>
  below shows that it is the same computation).
\<close>

definition flat :: "(string \<times> string list) list \<Rightarrow> (string \<times> string) list" where
  "flat m = concat (map (\<lambda>(d, files). map (Pair d) files) m)"

fun run :: "(string \<times> string) list \<Rightarrow> state \<Rightarrow> state result" where
  "run [] s = Inr s"
| "run (p # ps) s =
     (case process_file (fst p) (snd p) s of Inl x \<Rightarrow> Inl x | Inr s' \<Rightarrow> run ps s')"

text \<open>The state in which a run ends, whether it returned or raised.\<close>

fun state_of :: "state result \<Rightarrow> state" where
  "state_of (Inl (e, s)) = s"
| "state_of (Inr s) = s"

fun final_state :: "(state \<times> pyval) result \<Rightarrow> state" where
  "final_state (Inl (e, s)) = s"
| "final_state (Inr (s, v)) = s"

text \<open>
  The glossary's two kinds of root file: a duplicate exists at the root and at its target
  path, a movable file at the root only. \<open>action_msg\<close> is the line printed for either.
\<close>

definition duplicate :: "node \<Rightarrow> string \<times> string \<Rightarrow> bool" where
  "duplicate t p = (os_path_exists t (snd p) \<and> os_path_exists t (os_path_join (fst p) (snd p)))"

definition movable :: "node \<Rightarrow> string \<times> string \<Rightarrow> bool" where
  "movable t p = (os_path_exists t (snd p) \<and> \<not> os_path_exists t (os_path_join (fst p) (snd p)))"

definition action_msg :: "node \<Rightarrow> string \<times> string \<Rightarrow> string" where
  "action_msg t p =
     (if os_path_exists t (os_path_join (fst p) (snd p))
      then removing_msg (snd p) (fst p) else moving_msg (snd p) (fst p))"

text \<open>The dictionary with one filename struck from every list.\<close>

definition unlist :: "string \<Rightarrow> (string \<times> string list) list \<Rightarrow> (string \<times> string list) list" where
  "unlist f m = map (\<lambda>(d, files). (d, removeAll f files)) m"

text \<open>A directory that \<^verbatim>\<open>os.listdir\<close> accepts.\<close>

fun listable :: "node \<Rightarrow> bool" where
  "listable (Dir r w es) = r"
| "listable n = False"

text \<open>
  A tree without symbolic links, and a directory entry without what lies below it: the
  kind of the node, the content of a file, the target of a link, the bits of a directory.
\<close>

primrec link_free :: "node \<Rightarrow> bool" where
  "link_free (File c) = True"
| "link_free (Link x) = False"
| "link_free (Dir r w es) = list_all snd (map (map_prod id link_free) es)"

fun entry_of :: "node \<Rightarrow> node" where
  "entry_of (Dir r w es) = Dir r w []"
| "entry_of n = n"

text \<open>
  What the proofs need of the table: a filename is a single path component, a target
  directory has at least one component and none that is \<^verbatim>\<open>..\<close>, no filename is listed
  twice, and no filename is a component of a target directory. \<open>wf_mapping\<close> below
  checks the literal.
\<close>

definition plain_name :: "string \<Rightarrow> bool" where
  "plain_name f = (f \<noteq> [] \<and> f \<noteq> ''.'' \<and> f \<noteq> ''..'' \<and> CHR ''/'' \<notin> set f)"

definition entry_ok :: "string \<times> string \<Rightarrow> bool" where
  "entry_ok p =
     (plain_name (snd p) \<and> split_path (fst p) \<noteq> [] \<and> ''..'' \<notin> set (split_path (fst p)) \<and>
      snd p \<notin> set (split_path (fst p)))"

definition wf_pairs :: "(string \<times> string) list \<Rightarrow> bool" where
  "wf_pairs ps =
     (distinct (map snd ps) \<and>
      (\<forall>p \<in> set ps. plain_name (snd p) \<and> split_path (fst p) \<noteq> [] \<and>
                    ''..'' \<notin> set (split_path (fst p))) \<and>
      (\<forall>p \<in> set ps. \<forall>p' \<in> set ps. snd p' \<notin> set (split_path (fst p))))"

text \<open>
  The components of the target path of an entry, and the paths whose lookup the step for
  an entry can change: those below the root entry, the directories above the target,
  and those below the target.
\<close>

definition target :: "string \<times> string \<Rightarrow> string list" where
  "target p = split_path (fst p) @ [snd p]"

definition touches :: "string \<times> string \<Rightarrow> string list \<Rightarrow> bool" where
  "touches p q = (prefix [snd p] q \<or> prefix q (split_path (fst p)) \<or> prefix (target p) q)"

section \<open>Paths and lookups\<close>

text \<open>
  How a path splits into components, and what a lookup sees after \<open>update_dir\<close>: the
  change is confined to the subtree of the entry that was rewritten.
\<close>

lemma components_nonempty: "components p \<noteq> []"
  by (induction p) (auto split: list.splits)

lemma components_slash: "components (a @ CHR ''/'' # b) = components a @ components b"
  by (induction a) (auto split: list.splits simp: components_nonempty)

lemma components_plain: "CHR ''/'' \<notin> set f \<Longrightarrow> components f = [f]"
  by (induction f) auto

lemma split_path_plain: "plain_name f \<Longrightarrow> split_path f = [f]"
  by (simp add: plain_name_def split_path_def components_plain)

lemma split_path_slash: "split_path (a @ CHR ''/'' # b) = split_path a @ split_path b"
  by (simp add: split_path_def components_slash)

lemma split_path_Nil: "split_path [] = []"
  by (simp add: split_path_def)

lemma split_path_join:
  assumes "b = [] \<or> hd b \<noteq> CHR ''/''"
  shows "split_path (os_path_join a b) = split_path a @ split_path b"
proof (cases "a = []")
  case True
  with assms show ?thesis by (auto simp: os_path_join_def split_path_Nil)
next
  case False
  show ?thesis
  proof (cases "last a = CHR ''/''")
    case True
    with False have a: "a = butlast a @ [CHR ''/'']"
      by (metis append_butlast_last_id)
    have "split_path a = split_path (butlast a) @ split_path []"
      using split_path_slash [of "butlast a" "[]"] a by simp
    moreover have "split_path (a @ b) = split_path (butlast a) @ split_path b"
      using split_path_slash [of "butlast a" b] a by (metis append.assoc append_Cons append_Nil)
    ultimately show ?thesis
      using assms True False by (auto simp: os_path_join_def split_path_Nil)
  next
    case l: False
    with False assms show ?thesis
      by (auto simp: os_path_join_def split_path_slash)
  qed
qed

lemma target_path:
  "plain_name f \<Longrightarrow> split_path (os_path_join d f) = split_path d @ [f]"
proof -
  assume f: "plain_name f"
  then have "hd f \<noteq> CHR ''/''"
    unfolding plain_name_def by (metis hd_in_set)
  then show ?thesis
    using split_path_join [of f d] f by (simp add: split_path_plain)
qed

lemma lookup_update_dir_frame:
  assumes g: "\<And>es c. c \<noteq> a \<Longrightarrow> map_of (g es) c = map_of es c"
  shows "\<not> prefix q p \<Longrightarrow> \<not> prefix (p @ [a]) q \<Longrightarrow>
         lookup_node (update_dir g t p) q = lookup_node t q"
proof (induction p arbitrary: t q)
  case Nil
  then obtain c cs where q: "q = c # cs" by (cases q) auto
  with Nil have "c \<noteq> a" by auto
  then show ?case using q g by (cases t) auto
next
  case (Cons d ds)
  then obtain c cs where q: "q = c # cs" by (cases q) auto
  show ?case
  proof (cases t)
    case (File x)
    then show ?thesis by simp
  next
    case (Link x)
    then show ?thesis by simp
  next
    case (Dir r w es)
    show ?thesis
    proof (cases "map_of es d")
      case None
      with Dir show ?thesis by simp
    next
      case (Some n)
      show ?thesis
      proof (cases "c = d")
        case True
        with Cons.prems q have "\<not> prefix cs ds" "\<not> prefix (ds @ [a]) cs" by auto
        then have "lookup_node (update_dir g n ds) cs = lookup_node n cs"
          by (rule Cons.IH)
        with Dir Some True q show ?thesis by (simp add: update_conv')
      next
        case False
        with Dir Some q show ?thesis by (simp add: update_conv')
      qed
    qed
  qed
qed

lemma lookup_update_dir_new:
  "lookup_node t p = Some (Dir r' w es) \<Longrightarrow>
   lookup_node (update_dir (AList.update a n) t p) (p @ a # r) = lookup_node n r"
proof (induction p arbitrary: t)
  case Nil
  then show ?case by (simp add: update_conv')
next
  case (Cons d ds)
  then show ?case
    by (cases t) (auto simp: update_conv' split: option.splits)
qed

lemma lookup_delete_root:
  "lookup_node (update_dir (AList.delete a) t []) (a # r) = None"
  by (cases t) (auto simp: delete_conv')

lemma lookup_append:
  "lookup_node t (p @ q) = (case lookup_node t p of None \<Rightarrow> None | Some n \<Rightarrow> lookup_node n q)"
proof (induction p arbitrary: t)
  case Nil
  then show ?case by simp
next
  case (Cons d ds)
  then show ?case by (cases t) (auto split: option.splits)
qed

lemma link_free_entry:
  "list_all snd (map (map_prod id link_free) es) \<Longrightarrow> map_of es c = Some n \<Longrightarrow> link_free n"
  by (induction es) (auto split: if_splits)

lemma link_free_lookup: "link_free t \<Longrightarrow> lookup_node t p = Some n \<Longrightarrow> link_free n"
proof (induction p arbitrary: t)
  case Nil
  then show ?case by simp
next
  case (Cons d ds)
  then show ?case
    by (cases t) (auto split: option.splits dest: link_free_entry)
qed

text \<open>On a tree without links, resolution is the plain chain of entries.\<close>

lemma walk_link_free:
  assumes t: "link_free t"
  shows "''..'' \<notin> set cs \<Longrightarrow> lookup_node t cur \<noteq> None \<Longrightarrow>
         (case lookup_node t (cur @ cs) of
            None \<Rightarrow> \<exists>e. walk n t follow cur cs = Inl e
          | Some m \<Rightarrow> walk n t follow cur cs = Inr (cur @ cs))"
proof (induction cs arbitrary: cur)
  case Nil
  then show ?case by (auto split: option.splits)
next
  case (Cons c cs)
  then have c: "c \<noteq> ''..''" and cs: "''..'' \<notin> set cs" by auto
  have app: "lookup_node t (cur @ c # cs) =
      (case lookup_node t cur of None \<Rightarrow> None | Some n \<Rightarrow> lookup_node n (c # cs))"
    by (rule lookup_append)
  from Cons.prems obtain m where Some: "lookup_node t cur = Some m" by auto
  show ?case
  proof (cases m)
    case (File x)
    with Some app show ?thesis by simp
  next
    case (Link x)
    with Some app show ?thesis by simp
  next
    case (Dir r w es)
    have lf: "link_free (Dir r w es)"
      using t Some Dir link_free_lookup by blast
    show ?thesis
    proof (cases "map_of es c")
      case None
      with Some Dir app c show ?thesis by simp
    next
      case e: (Some k)
      from lf e have k: "link_free k"
        by (auto dest: link_free_entry)
      have step: "walk n t follow cur (c # cs) = walk n t follow (cur @ [c]) cs"
        using Some Dir e c k by (cases k) simp_all
      have "lookup_node t (cur @ [c]) = Some k"
        using Some Dir e lookup_append [of t cur "[c]"] by simp
      then have valid: "lookup_node t (cur @ [c]) \<noteq> None" by simp
      have "lookup_node t ((cur @ [c]) @ cs) = lookup_node t (cur @ c # cs)"
        by simp
      with Cons.IH [OF cs valid] show ?thesis
        unfolding step by (simp split: option.splits)
    qed
  qed
qed

lemma node_at_link_free:
  assumes "link_free t" and "''..'' \<notin> set (split_path p)"
  shows "node_at t p = lookup_node t (split_path p)"
  using walk_link_free [OF assms(1) assms(2), where cur = "[]" and n = max_links and follow = True]
  by (auto simp: node_at_def split: option.splits)

lemma walk_dir_link_free:
  assumes "link_free t" and "''..'' \<notin> set cs" and "walk n t follow [] cs = Inr q"
  shows "q = cs \<and> lookup_node t cs \<noteq> None"
  using walk_link_free [OF assms(1) assms(2), where cur = "[]" and n = n and follow = follow]
    assms(3)
  by (auto split: option.splits)

lemma list_all_delete:
  "list_all snd (map (map_prod id link_free) es) \<Longrightarrow>
   list_all snd (map (map_prod id link_free) (AList.delete a es))"
  by (induction es) auto

lemma list_all_update:
  "list_all snd (map (map_prod id link_free) es) \<Longrightarrow> link_free n \<Longrightarrow>
   list_all snd (map (map_prod id link_free) (AList.update a n es))"
  by (induction es) auto

lemma link_free_update_dir:
  assumes g: "\<And>es. list_all snd (map (map_prod id link_free) es) \<Longrightarrow>
                list_all snd (map (map_prod id link_free) (g es))"
  shows "link_free t \<Longrightarrow> link_free (update_dir g t p)"
proof (induction p arbitrary: t)
  case Nil
  then show ?case using g by (cases t) auto
next
  case (Cons d ds)
  show ?case
  proof (cases t)
    case (File x)
    then show ?thesis by simp
  next
    case (Link x)
    with Cons.prems show ?thesis by simp
  next
    case (Dir r w es)
    show ?thesis
    proof (cases "map_of es d")
      case None
      with Dir Cons.prems show ?thesis by simp
    next
      case (Some k)
      with Dir Cons.prems have "link_free k" by (auto dest: link_free_entry)
      then have "link_free (update_dir g k ds)" by (rule Cons.IH)
      with Dir Some Cons.prems show ?thesis
        by (simp add: list_all_update)
    qed
  qed
qed

section \<open>One step of the loop\<close>

text \<open>
  The body of the inner loop on an entry \<open>(d, f)\<close> of a well-formed table: it skips,
  raises, removes the root entry or moves it, and in each case leaves every path alone
  that it does not touch.
\<close>

lemma plain_not_up: "plain_name f \<Longrightarrow> ''..'' \<notin> set (split_path f)"
  by (simp add: split_path_plain) (auto simp: plain_name_def)

lemma node_at_root:
  "plain_name f \<Longrightarrow> link_free t \<Longrightarrow> node_at t f = lookup_node t [f]"
  using node_at_link_free [of t f] plain_not_up [of f] by (simp add: split_path_plain)

lemma target_not_up:
  "plain_name f \<Longrightarrow> ''..'' \<notin> set (split_path d) \<Longrightarrow>
   ''..'' \<notin> set (split_path (os_path_join d f))"
  by (simp add: target_path) (auto simp: plain_name_def)

lemma node_at_target:
  "plain_name f \<Longrightarrow> link_free t \<Longrightarrow> ''..'' \<notin> set (split_path d) \<Longrightarrow>
   node_at t (os_path_join d f) = lookup_node t (target (d, f))"
  using node_at_link_free [of t "os_path_join d f"] target_not_up [of f d]
  by (simp add: target_path target_def)

lemma exists_root:
  "plain_name f \<Longrightarrow> link_free t \<Longrightarrow> os_path_exists t f = (lookup_node t [f] \<noteq> None)"
  by (simp add: os_path_exists_def node_at_root)

lemma exists_target:
  "plain_name f \<Longrightarrow> link_free t \<Longrightarrow> ''..'' \<notin> set (split_path d) \<Longrightarrow>
   os_path_exists t (os_path_join d f) = (lookup_node t (target (d, f)) \<noteq> None)"
  by (simp add: os_path_exists_def node_at_target)

lemma process_file_skip:
  "\<not> os_path_exists (fs s) f \<Longrightarrow> process_file d f s = Inr s"
  by (simp add: process_file_def)

lemma process_file_raise:
  "process_file d f s = Inl (e, s') \<Longrightarrow>
   os_path_exists (fs s) f \<and>
   s' = print (if os_path_exists (fs s) (os_path_join d f) then removing_msg f d else moving_msg f d) s"
  by (auto simp: process_file_def Let_def split: if_splits sum.splits)

lemma fs_print [simp]: "fs (print l s) = fs s"
  and deleted_print [simp]: "deleted_count (print l s) = deleted_count s"
  and moved_print [simp]: "moved_count (print l s) = moved_count s"
  and out_print [simp]: "out (print l s) = out s @ [l]"
  by (simp_all add: print_def)

lemma os_remove_root:
  assumes "plain_name f" "os_remove t f = Inr t'"
  shows "t' = update_dir (AList.delete f) t []"
proof -
  from assms(1) have "f \<noteq> ''..''" by (simp add: plain_name_def)
  then show ?thesis
    using assms
    by (auto simp: os_remove_def split_path_plain Let_def
        split: node.splits option.splits if_splits sum.splits)
qed

text \<open>Whatever the links, a move of a root entry rewrites the root and one directory.\<close>

lemma os_rename_any:
  assumes f: "plain_name f" and r: "os_rename t f (os_path_join d f) = Inr t'"
  shows "t' = t \<or>
         (\<exists>n q. lookup_node t [f] = Some n \<and>
            t' = update_dir (AList.update f n) (update_dir (AList.delete f) t []) q)"
proof -
  have l: "last (split_path d @ [f]) = f" by simp
  show ?thesis
    using r
    by (cases t)
      (auto simp: os_rename_def split_path_plain [OF f] target_path [OF f] Let_def
        split: node.splits option.splits if_splits sum.splits)
qed

lemma os_rename_root:
  assumes f: "plain_name f" and ok: "entry_ok (d, f)" and t: "link_free t"
    and r: "os_rename t f (os_path_join d f) = Inr t'"
  shows "\<exists>n r w es. lookup_node t [f] = Some n \<and>
           lookup_node t (split_path d) = Some (Dir r w es) \<and>
           t' = update_dir (AList.update f n) (update_dir (AList.delete f) t []) (split_path d)"
proof -
  have ne: "[f] \<noteq> split_path d @ [f]"
    using ok by (simp add: entry_ok_def)
  have up: "''..'' \<notin> set (split_path d)"
    using ok by (simp add: entry_ok_def)
  show ?thesis
  proof (cases "walk max_links t True [] (split_path d)")
    case (Inl e)
    with r show ?thesis
      by (auto simp: os_rename_def split_path_plain [OF f] target_path [OF f] Let_def
          split: node.splits option.splits if_splits sum.splits)
  next
    case (Inr q)
    with walk_dir_link_free [OF t up Inr] have w: "walk max_links t True [] (split_path d)
        = Inr (split_path d)" by simp
    from r obtain r0 w0 es0 where T: "t = Dir r0 w0 es0"
      by (cases t)
        (auto simp: os_rename_def split_path_plain [OF f] target_path [OF f] Let_def
          split: if_splits)
    show ?thesis
      using r ne w unfolding T
      by (auto simp: os_rename_def split_path_plain [OF f] target_path [OF f] Let_def
          split: node.splits option.splits if_splits sum.splits)
  qed
qed

lemma process_file_cases [consumes 2, case_names skip raise removed moved]:
  assumes ok: "entry_ok (d, f)" and lf: "link_free (fs s)"
  obtains
    (skip) "lookup_node (fs s) [f] = None" "process_file d f s = Inr s"
  | (raise) e msg where "lookup_node (fs s) [f] \<noteq> None"
      "process_file d f s = Inl (e, print msg s)"
  | (removed) "lookup_node (fs s) [f] \<noteq> None" "lookup_node (fs s) (target (d, f)) \<noteq> None"
      "process_file d f s =
         Inr ((print (removing_msg f d) s)
               \<lparr>fs := update_dir (AList.delete f) (fs s) [],
                deleted_count := deleted_count s + 1\<rparr>)"
  | (moved) n r w es where "lookup_node (fs s) [f] = Some n"
      "lookup_node (fs s) (target (d, f)) = None"
      "lookup_node (fs s) (split_path d) = Some (Dir r w es)"
      "process_file d f s =
         Inr ((print (moving_msg f d) s)
               \<lparr>fs := update_dir (AList.update f n)
                        (update_dir (AList.delete f) (fs s) []) (split_path d),
                moved_count := moved_count s + 1\<rparr>)"
proof -
  from ok have f: "plain_name f" and up: "''..'' \<notin> set (split_path d)"
    by (simp_all add: entry_ok_def)
  show thesis
  proof (cases "os_path_exists (fs s) f")
    case False
    then show thesis
      using skip f lf by (simp add: process_file_skip exists_root)
  next
    case ex: True
    then have root: "lookup_node (fs s) [f] \<noteq> None"
      using f lf by (simp add: exists_root)
    show thesis
    proof (cases "os_path_exists (fs s) (os_path_join d f)")
      case True
      then have tgt: "lookup_node (fs s) (target (d, f)) \<noteq> None"
        using f lf up by (simp add: exists_target)
      show thesis
      proof (cases "os_remove (fs s) f")
        case (Inl e)
        with ex True have "process_file d f s = Inl (e, print (removing_msg f d) s)"
          by (simp add: process_file_def)
        with root show thesis by (rule raise)
      next
        case (Inr t)
        with f have "t = update_dir (AList.delete f) (fs s) []"
          by (simp add: os_remove_root)
        with Inr ex True have "process_file d f s =
            Inr ((print (removing_msg f d) s)
               \<lparr>fs := update_dir (AList.delete f) (fs s) [],
                deleted_count := deleted_count s + 1\<rparr>)"
          by (simp add: process_file_def)
        with root tgt show thesis by (rule removed)
      qed
    next
      case False
      then have tgt: "lookup_node (fs s) (target (d, f)) = None"
        using f lf up by (simp add: exists_target)
      show thesis
      proof (cases "os_rename (fs s) f (os_path_join d f)")
        case (Inl e)
        with ex False have "process_file d f s = Inl (e, print (moving_msg f d) s)"
          by (simp add: process_file_def)
        with root show thesis by (rule raise)
      next
        case (Inr t)
        from os_rename_root [OF f ok lf Inr] obtain n r w es where
          n: "lookup_node (fs s) [f] = Some n" and
          d: "lookup_node (fs s) (split_path d) = Some (Dir r w es)" and
          t: "t = update_dir (AList.update f n) (update_dir (AList.delete f) (fs s) [])
                   (split_path d)"
          by blast
        from Inr t ex False have "process_file d f s =
            Inr ((print (moving_msg f d) s)
               \<lparr>fs := update_dir (AList.update f n)
                        (update_dir (AList.delete f) (fs s) []) (split_path d),
                moved_count := moved_count s + 1\<rparr>)"
          by (simp add: process_file_def)
        with n tgt d show thesis by (rule moved)
      qed
    qed
  qed
qed

lemma not_prefix_name: "ds \<noteq> [] \<Longrightarrow> f \<notin> set ds \<Longrightarrow> \<not> prefix [f] (ds @ r)"
  by (cases ds) auto

lemma not_prefix_longer: "ds \<noteq> [] \<Longrightarrow> \<not> prefix (ds @ [f]) [g]"
  by (cases ds) auto

lemma lookup_after_delete:
  "q \<noteq> [] \<Longrightarrow> \<not> prefix [f] q \<Longrightarrow>
   lookup_node (update_dir (AList.delete f) t []) q = lookup_node t q"
  using lookup_update_dir_frame [of f "AList.delete f" q "[]" t]
  by (simp add: prefix_def)

lemma lookup_after_move:
  assumes "\<not> touches (d, f) q"
  shows "lookup_node (update_dir (AList.update f n)
           (update_dir (AList.delete f) t []) (split_path d)) q = lookup_node t q"
proof -
  from assms have q: "\<not> prefix [f] q" "\<not> prefix q (split_path d)"
    "\<not> prefix (split_path d @ [f]) q"
    by (simp_all add: touches_def target_def)
  then have "q \<noteq> []" by auto
  have "lookup_node (update_dir (AList.update f n)
           (update_dir (AList.delete f) t []) (split_path d)) q
        = lookup_node (update_dir (AList.delete f) t []) q"
    using q by (intro lookup_update_dir_frame) (simp_all add: update_conv')
  also have "\<dots> = lookup_node t q"
    using \<open>q \<noteq> []\<close> q by (simp add: lookup_after_delete)
  finally show ?thesis .
qed

lemma process_file_frame:
  assumes ok: "entry_ok (d, f)" and lf: "link_free (fs s)" and q: "\<not> touches (d, f) q"
  shows "lookup_node (fs (state_of (process_file d f s))) q = lookup_node (fs s) q"
  using ok lf
proof (cases rule: process_file_cases [where s = s])
  case skip
  then show ?thesis by simp
next
  case (raise e msg)
  then show ?thesis by simp
next
  case removed
  from q have "q \<noteq> []" "\<not> prefix [f] q" by (auto simp: touches_def)
  with removed show ?thesis by (simp add: lookup_after_delete)
next
  case (moved n r w es)
  with q show ?thesis by (simp add: lookup_after_move)
qed

lemma process_file_root:
  assumes ok: "entry_ok (d, f)" and lf: "link_free (fs s)"
    and r: "process_file d f s = Inr s'"
  shows "lookup_node (fs s') [f] = None"
  using ok lf
proof (cases rule: process_file_cases [where s = s])
  case skip
  with r show ?thesis by simp
next
  case (raise e msg)
  with r show ?thesis by simp
next
  case removed
  with r show ?thesis by (auto simp: lookup_delete_root)
next
  case (moved n r w es)
  from ok have "\<not> prefix [f] (split_path d)" "\<not> prefix (split_path d @ [f]) [f]"
    using not_prefix_name [of "split_path d" f "[]"] not_prefix_longer [of "split_path d" f f]
    by (simp_all add: entry_ok_def)
  then have "lookup_node (update_dir (AList.update f n)
           (update_dir (AList.delete f) (fs s) []) (split_path d)) [f]
        = lookup_node (update_dir (AList.delete f) (fs s) []) [f]"
    by (intro lookup_update_dir_frame) (simp_all add: update_conv')
  with moved r show ?thesis by (auto simp: lookup_delete_root)
qed

lemma process_file_target:
  assumes ok: "entry_ok (d, f)" and lf: "link_free (fs s)"
    and r: "process_file d f s = Inr s'"
  shows "lookup_node (fs s') (target (d, f)) =
           (case lookup_node (fs s) (target (d, f)) of
              None \<Rightarrow> lookup_node (fs s) [f] | Some n \<Rightarrow> Some n)"
  using ok lf
proof (cases rule: process_file_cases [where s = s])
  case skip
  with r show ?thesis by (auto split: option.splits)
next
  case (raise e msg)
  with r show ?thesis by simp
next
  case removed
  from ok have "target (d, f) \<noteq> []" "\<not> prefix [f] (target (d, f))"
    using not_prefix_name [of "split_path d" f "[f]"]
    by (simp_all add: entry_ok_def target_def)
  with removed r show ?thesis by (auto simp: lookup_after_delete)
next
  case (moved n r w es)
  from ok have "split_path d \<noteq> []" "\<not> prefix [f] (split_path d)"
    using not_prefix_name [of "split_path d" f "[]"]
    by (simp_all add: entry_ok_def)
  with moved have "lookup_node (update_dir (AList.delete f) (fs s) []) (split_path d)
      = Some (Dir r w es)"
    by (simp add: lookup_after_delete)
  then have "lookup_node (update_dir (AList.update f n)
           (update_dir (AList.delete f) (fs s) []) (split_path d)) (split_path d @ f # [])
        = lookup_node n []"
    by (rule lookup_update_dir_new)
  with moved r show ?thesis by (auto simp: target_def)
qed

lemma process_file_counts:
  assumes "process_file d f s = Inr s'"
  shows "deleted_count s' = deleted_count s +
           (if os_path_exists (fs s) f \<and> os_path_exists (fs s) (os_path_join d f) then 1 else 0)"
    and "moved_count s' = moved_count s +
           (if os_path_exists (fs s) f \<and> \<not> os_path_exists (fs s) (os_path_join d f) then 1 else 0)"
    and "out s' = out s @
           (if os_path_exists (fs s) f
            then [if os_path_exists (fs s) (os_path_join d f)
                  then removing_msg f d else moving_msg f d]
            else [])"
  using assms by (auto simp: process_file_def Let_def split: if_splits sum.splits)

lemma process_file_link_free:
  assumes ok: "entry_ok (d, f)" and lf: "link_free (fs s)"
  shows "link_free (fs (state_of (process_file d f s)))"
  using ok lf
proof (cases rule: process_file_cases [where s = s])
  case skip
  with lf show ?thesis by simp
next
  case (raise e msg)
  with lf show ?thesis by simp
next
  case removed
  with lf show ?thesis
    by (simp add: link_free_update_dir list_all_delete)
next
  case (moved n r w es)
  from lf moved(1) have "link_free n" by (rule link_free_lookup)
  with lf moved show ?thesis
    by (simp add: link_free_update_dir list_all_delete list_all_update)
qed

text \<open>
  With or without links, the step for \<open>f\<close> leaves the root entry of every other name in
  place: at most the contents of a directory of that name change.
\<close>

lemma entry_update_dir:
  assumes g: "\<And>es. map_of (g es) c = map_of es c"
  shows "map_option entry_of (lookup_node (update_dir g t q) [c])
         = map_option entry_of (lookup_node t [c])"
proof (cases t)
  case (File x)
  then show ?thesis by simp
next
  case (Link x)
  then show ?thesis by simp
next
  case (Dir r w es)
  show ?thesis
  proof (cases q)
    case Nil
    with Dir g show ?thesis by simp
  next
    case (Cons a as)
    show ?thesis
    proof (cases "map_of es a")
      case None
      with Dir Cons show ?thesis by simp
    next
      case (Some k)
      have "entry_of (update_dir g k as) = entry_of k"
        by (cases k; cases as) (auto split: option.splits)
      with Dir Cons Some show ?thesis
        by (auto simp: update_conv')
    qed
  qed
qed

lemma process_file_entry:
  assumes f: "plain_name f" and ne: "c \<noteq> f"
  shows "map_option entry_of (lookup_node (fs (state_of (process_file d f s))) [c])
         = map_option entry_of (lookup_node (fs s) [c])"
proof (cases "process_file d f s")
  case (Inl x)
  then obtain e s' where "process_file d f s = Inl (e, s')" by (cases x) auto
  with process_file_raise [of d f s e s'] show ?thesis by simp
next
  case (Inr s')
  have del: "\<And>es. map_of (AList.delete f es) c = map_of es c"
    using ne by simp
  have upd: "\<And>n es. map_of (AList.update f n es) c = map_of es c"
    using ne by (simp add: update_conv')
  have "fs s' = fs s \<or> fs s' = update_dir (AList.delete f) (fs s) [] \<or>
      (\<exists>n q. fs s' = update_dir (AList.update f n) (update_dir (AList.delete f) (fs s) []) q)"
  proof (cases "os_path_exists (fs s) f")
    case False
    with Inr show ?thesis by (simp add: process_file_skip)
  next
    case ex: True
    show ?thesis
    proof (cases "os_path_exists (fs s) (os_path_join d f)")
      case True
      with ex Inr obtain t' where "os_remove (fs s) f = Inr t'" "fs s' = t'"
        by (auto simp: process_file_def Let_def split: sum.splits)
      with os_remove_root [OF f, of "fs s" t'] show ?thesis by simp
    next
      case False
      with ex Inr obtain t' where "os_rename (fs s) f (os_path_join d f) = Inr t'" "fs s' = t'"
        by (auto simp: process_file_def Let_def split: sum.splits)
      with os_rename_any [OF f, of "fs s" d t'] show ?thesis by blast
    qed
  qed
  then show ?thesis
    using Inr entry_update_dir [of "AList.delete f" c "fs s" "[]", OF del]
      entry_update_dir [of "AList.update f _" c "update_dir (AList.delete f) (fs s) []", OF upd]
    by auto
qed

section \<open>The loop\<close>

text \<open>
  The nested iteration is one loop over the flattened table. The step for one entry does not
  change what the steps for the other entries see, so the effect of a run on an entry is
  the effect of its own step on the tree of the start.
\<close>

lemma run_append:
  "run (ps @ qs) s = (case run ps s of Inl x \<Rightarrow> Inl x | Inr s' \<Rightarrow> run qs s')"
  by (induction ps arbitrary: s) (auto split: sum.splits)

lemma for_files_run: "for_files d files s = run (map (Pair d) files) s"
  by (induction files arbitrary: s) (auto split: sum.splits)

lemma for_items_run: "for_items m s = run (flat m) s"
proof (induction m arbitrary: s)
  case Nil
  then show ?case by (simp add: flat_def)
next
  case (Cons a m)
  obtain d files where a: "a = (d, files)" by (cases a)
  have "flat (a # m) = map (Pair d) files @ flat m"
    by (simp add: flat_def a)
  then show ?case
    using Cons.IH by (simp add: a run_append for_files_run split: sum.splits)
qed

lemma wf_pairs_entry_ok: "wf_pairs ps \<Longrightarrow> p \<in> set ps \<Longrightarrow> entry_ok p"
  by (auto simp: wf_pairs_def entry_ok_def)

lemma wf_pairs_Cons: "wf_pairs (p # ps) \<Longrightarrow> wf_pairs ps"
  by (auto simp: wf_pairs_def)

lemma wf_pairs_apart:
  assumes wf: "wf_pairs ps" and p: "p \<in> set ps" and p': "p' \<in> set ps"
    and ne: "snd p \<noteq> snd p'"
  shows "\<not> touches p [snd p']" and "\<not> touches p (target p')"
proof -
  let ?ds = "split_path (fst p)" and ?ds' = "split_path (fst p')"
  from wf p p' have ds: "?ds \<noteq> []" "?ds' \<noteq> []"
    and a: "snd p' \<notin> set ?ds" "snd p \<notin> set ?ds'" "snd p \<notin> set ?ds" "snd p' \<notin> set ?ds'"
    by (auto simp: wf_pairs_def)
  have 1: "\<not> prefix [snd p'] ?ds"
    using not_prefix_name [of ?ds "snd p'" "[]"] ds a by simp
  have 2: "\<not> prefix (?ds @ [snd p]) [snd p']"
    using ds(1) by (rule not_prefix_longer)
  show "\<not> touches p [snd p']"
    using ne 1 2 by (simp add: touches_def target_def)
  have 3: "\<not> prefix [snd p] (?ds' @ [snd p'])"
    using ds a by (intro not_prefix_name)
  have 4: "\<not> prefix (?ds' @ [snd p']) ?ds"
  proof
    assume "prefix (?ds' @ [snd p']) ?ds"
    then have "set (?ds' @ [snd p']) \<subseteq> set ?ds" by (rule set_mono_prefix)
    with a show False by simp
  qed
  have 5: "\<not> prefix (?ds @ [snd p]) (?ds' @ [snd p'])"
  proof
    assume "prefix (?ds @ [snd p]) (?ds' @ [snd p'])"
    then have "?ds @ [snd p] = ?ds' @ [snd p'] \<or> prefix (?ds @ [snd p]) ?ds'"
      by (simp add: prefix_snoc)
    then show False
    proof
      assume "?ds @ [snd p] = ?ds' @ [snd p']"
      with ne show False by simp
    next
      assume "prefix (?ds @ [snd p]) ?ds'"
      then have "set (?ds @ [snd p]) \<subseteq> set ?ds'" by (rule set_mono_prefix)
      with a show False by simp
    qed
  qed
  show "\<not> touches p (target p')"
    using 3 4 5 by (simp add: touches_def target_def)
qed

lemma run_link_free:
  "\<forall>p \<in> set ps. entry_ok p \<Longrightarrow> link_free (fs s) \<Longrightarrow>
   link_free (fs (state_of (run ps s)))"
proof (induction ps arbitrary: s)
  case Nil
  then show ?case by simp
next
  case (Cons p ps)
  then have ok: "entry_ok (fst p, snd p)" by simp
  have step: "link_free (fs (state_of (process_file (fst p) (snd p) s)))"
    using ok Cons.prems(2) by (rule process_file_link_free)
  show ?case
  proof (cases "process_file (fst p) (snd p) s")
    case (Inl x)
    with step show ?thesis by simp
  next
    case (Inr s')
    with step Cons show ?thesis by simp
  qed
qed

lemma run_frame:
  "\<forall>p \<in> set ps. entry_ok p \<and> \<not> touches p q \<Longrightarrow> link_free (fs s) \<Longrightarrow>
   lookup_node (fs (state_of (run ps s))) q = lookup_node (fs s) q"
proof (induction ps arbitrary: s)
  case Nil
  then show ?case by simp
next
  case (Cons p ps)
  then have ok: "entry_ok (fst p, snd p)" and q: "\<not> touches (fst p, snd p) q" by simp_all
  have step: "lookup_node (fs (state_of (process_file (fst p) (snd p) s))) q = lookup_node (fs s) q"
    using ok Cons.prems(2) q by (rule process_file_frame)
  have lf: "link_free (fs (state_of (process_file (fst p) (snd p) s)))"
    using ok Cons.prems(2) by (rule process_file_link_free)
  show ?case
  proof (cases "process_file (fst p) (snd p) s")
    case (Inl x)
    with step show ?thesis by simp
  next
    case (Inr s')
    with step lf Cons show ?thesis by simp
  qed
qed

text \<open>The general form, whatever the links: root entries of other names stay in place.\<close>

lemma run_entry:
  "\<forall>p \<in> set ps. plain_name (snd p) \<and> snd p \<noteq> c \<Longrightarrow>
   map_option entry_of (lookup_node (fs (state_of (run ps s))) [c])
   = map_option entry_of (lookup_node (fs s) [c])"
proof (induction ps arbitrary: s)
  case Nil
  then show ?case by simp
next
  case (Cons p ps)
  then have "plain_name (snd p)" "c \<noteq> snd p" by auto
  then have step: "map_option entry_of
        (lookup_node (fs (state_of (process_file (fst p) (snd p) s))) [c])
      = map_option entry_of (lookup_node (fs s) [c])"
    by (rule process_file_entry)
  show ?case
  proof (cases "process_file (fst p) (snd p) s")
    case (Inl x)
    with step show ?thesis by simp
  next
    case (Inr s')
    with step Cons show ?thesis by simp
  qed
qed

lemma run_raise:
  "run ps s = Inl (e, s') \<Longrightarrow>
   \<exists>pre p post s1. ps = pre @ p # post \<and> run pre s = Inr s1 \<and>
      process_file (fst p) (snd p) s1 = Inl (e, s')"
proof (induction ps arbitrary: s)
  case Nil
  then show ?case by simp
next
  case (Cons p ps)
  show ?case
  proof (cases "process_file (fst p) (snd p) s")
    case (Inl x)
    with Cons.prems have "process_file (fst p) (snd p) s = Inl (e, s')" by simp
    then have "p # ps = [] @ p # ps \<and> run [] s = Inr s \<and>
        process_file (fst p) (snd p) s = Inl (e, s')" by simp
    then show ?thesis by blast
  next
    case (Inr s2)
    with Cons.prems have "run ps s2 = Inl (e, s')" by simp
    from Cons.IH [OF this] obtain pre p' post s1 where
      "ps = pre @ p' # post" "run pre s2 = Inr s1"
      "process_file (fst p') (snd p') s1 = Inl (e, s')" by blast
    with Inr have "p # ps = (p # pre) @ p' # post \<and> run (p # pre) s = Inr s1 \<and>
        process_file (fst p') (snd p') s1 = Inl (e, s')" by simp
    then show ?thesis by blast
  qed
qed

lemma run_view:
  assumes wf: "wf_pairs ps" and p: "p \<in> set ps" and lf: "link_free (fs s)"
    and r: "run ps s = Inr s'"
  shows "lookup_node (fs s') [snd p] = None"
    and "lookup_node (fs s') (target p) =
           (case lookup_node (fs s) (target p) of
              None \<Rightarrow> lookup_node (fs s) [snd p] | Some n \<Rightarrow> Some n)"
proof -
  from p obtain pre post where ps: "ps = pre @ p # post"
    by (auto dest: split_list)
  from r ps obtain s1 s2 where
    1: "run pre s = Inr s1" and 2: "process_file (fst p) (snd p) s1 = Inr s2"
    and 3: "run post s2 = Inr s'"
    by (auto simp: run_append split: sum.splits)
  from wf ps have "distinct (map snd pre @ snd p # map snd post)"
    by (simp add: wf_pairs_def)
  then have "snd p \<notin> snd ` set pre" "snd p \<notin> snd ` set post"
    by auto
  then have d: "\<forall>p' \<in> set pre \<union> set post. snd p' \<noteq> snd p"
    by (metis Un_iff imageI)
  have apart: "\<forall>p' \<in> set pre \<union> set post.
      entry_ok p' \<and> \<not> touches p' [snd p] \<and> \<not> touches p' (target p)"
  proof
    fix p' assume p': "p' \<in> set pre \<union> set post"
    then have "p' \<in> set ps" using ps by auto
    moreover from p' d have "snd p' \<noteq> snd p" by blast
    ultimately show "entry_ok p' \<and> \<not> touches p' [snd p] \<and> \<not> touches p' (target p)"
      using wf p wf_pairs_apart [of ps p' p] wf_pairs_entry_ok [of ps p'] by blast
  qed
  have ok: "entry_ok (fst p, snd p)"
    using wf p wf_pairs_entry_ok [of ps p] by simp
  have lf1: "link_free (fs s1)"
    using run_link_free [of pre s] apart lf 1 by simp
  have lf2: "link_free (fs s2)"
    using process_file_link_free [OF ok lf1] 2 by simp
  have pre_root: "lookup_node (fs s1) [snd p] = lookup_node (fs s) [snd p]"
    using run_frame [of pre "[snd p]" s] apart lf 1 by simp
  have pre_tgt: "lookup_node (fs s1) (target p) = lookup_node (fs s) (target p)"
    using run_frame [of pre "target p" s] apart lf 1 by simp
  have post_root: "lookup_node (fs s') [snd p] = lookup_node (fs s2) [snd p]"
    using run_frame [of post "[snd p]" s2] apart lf2 3 by simp
  have post_tgt: "lookup_node (fs s') (target p) = lookup_node (fs s2) (target p)"
    using run_frame [of post "target p" s2] apart lf2 3 by simp
  show "lookup_node (fs s') [snd p] = None"
    using process_file_root [OF ok lf1 2] post_root by simp
  show "lookup_node (fs s') (target p) =
           (case lookup_node (fs s) (target p) of
              None \<Rightarrow> lookup_node (fs s) [snd p] | Some n \<Rightarrow> Some n)"
    using process_file_target [OF ok lf1 2] post_tgt pre_root pre_tgt
    by (simp split: option.splits)
qed

lemma listable_update_dir [simp]: "listable (update_dir g t p) = listable t"
  by (cases t; cases p) (auto split: option.splits)

lemma os_remove_listable: "os_remove t p = Inr t' \<Longrightarrow> listable t' = listable t"
  by (auto simp: os_remove_def Let_def split: if_splits option.splits node.splits sum.splits)

lemma os_rename_listable: "os_rename t p p' = Inr t' \<Longrightarrow> listable t' = listable t"
  by (auto simp: os_rename_def Let_def split: if_splits option.splits node.splits sum.splits)

lemma process_file_listable: "listable (fs (state_of (process_file d f s))) = listable (fs s)"
  by (auto simp: process_file_def Let_def os_remove_listable os_rename_listable split: sum.splits)

lemma run_listable: "listable (fs (state_of (run ps s))) = listable (fs s)"
proof (induction ps arbitrary: s)
  case Nil
  then show ?case by simp
next
  case (Cons p ps)
  show ?case
  proof (cases "process_file (fst p) (snd p) s")
    case (Inl x)
    then show ?thesis
      using process_file_listable [of "fst p" "snd p" s] by simp
  next
    case (Inr s')
    then show ?thesis
      using process_file_listable [of "fst p" "snd p" s] Cons.IH [of s'] by simp
  qed
qed

lemma split_path_dot: "split_path ''.'' = []"
  by (simp add: split_path_def)

lemma root_files_of_listable: "(\<exists>names. root_files_of t = Inr names) \<longleftrightarrow> listable t"
  by (cases t) (auto simp: root_files_of_def os_listdir_def split_path_dot)

lemma root_files_of_Inl:
  "root_files_of t = Inl e \<Longrightarrow> \<not> listable t"
  using root_files_of_listable [of t] by auto

lemma view_stable:
  assumes wf: "wf_pairs (p # ps)" and p': "p' \<in> set ps" and lf: "link_free (fs s)"
    and r: "process_file (fst p) (snd p) s = Inr s1"
  shows "os_path_exists (fs s1) (snd p') = os_path_exists (fs s) (snd p')"
    and "os_path_exists (fs s1) (os_path_join (fst p') (snd p'))
         = os_path_exists (fs s) (os_path_join (fst p') (snd p'))"
proof -
  from wf p' have ne: "snd p \<noteq> snd p'"
    by (auto simp: wf_pairs_def)
  have ok: "entry_ok (fst p, snd p)"
    using wf wf_pairs_entry_ok [of "p # ps" p] by simp
  have pl: "plain_name (snd p')" and up: "''..'' \<notin> set (split_path (fst p'))"
    using wf p' by (simp_all add: wf_pairs_def)
  have lf1: "link_free (fs s1)"
    using process_file_link_free [OF ok lf] r by simp
  have a: "\<not> touches (fst p, snd p) [snd p']" "\<not> touches (fst p, snd p) (target p')"
    using wf_pairs_apart [OF wf _ _ ne, of ] p' by simp_all
  have "lookup_node (fs s1) [snd p'] = lookup_node (fs s) [snd p']"
    using process_file_frame [OF ok lf a(1)] r by simp
  then show "os_path_exists (fs s1) (snd p') = os_path_exists (fs s) (snd p')"
    using pl lf lf1 by (simp add: exists_root)
  have "lookup_node (fs s1) (target p') = lookup_node (fs s) (target p')"
    using process_file_frame [OF ok lf a(2)] r by simp
  then show "os_path_exists (fs s1) (os_path_join (fst p') (snd p'))
         = os_path_exists (fs s) (os_path_join (fst p') (snd p'))"
    using pl up lf lf1 exists_target [of "snd p'" _ "fst p'"] by simp
qed

lemma process_file_tally:
  assumes "process_file (fst p) (snd p) s = Inr s'"
  shows "deleted_count s' = deleted_count s + (if duplicate (fs s) p then 1 else 0)"
    and "moved_count s' = moved_count s + (if movable (fs s) p then 1 else 0)"
    and "out s' = out s @ (if os_path_exists (fs s) (snd p) then [action_msg (fs s) p] else [])"
  using process_file_counts [OF assms]
  by (simp_all add: duplicate_def movable_def action_msg_def)

lemma run_counts:
  assumes "wf_pairs ps" "link_free (fs s)" "run ps s = Inr s'"
  shows "deleted_count s' = deleted_count s + int (length (filter (duplicate (fs s)) ps))"
    and "moved_count s' = moved_count s + int (length (filter (movable (fs s)) ps))"
    and "out s' = out s @ map (action_msg (fs s)) (filter (\<lambda>p. os_path_exists (fs s) (snd p)) ps)"
  using assms
proof (induction ps arbitrary: s)
  case Nil
  {
    case 1 then show ?case by simp
  next
    case 2 then show ?case by simp
  next
    case 3 then show ?case by simp
  }
next
  case (Cons p ps)
  {
    case 1
    then obtain s1 where s1: "process_file (fst p) (snd p) s = Inr s1" and r: "run ps s1 = Inr s'"
      by (auto split: sum.splits)
    from 1 have wf: "wf_pairs ps" by (auto dest: wf_pairs_Cons)
    have ok: "entry_ok (fst p, snd p)"
      using wf_pairs_entry_ok [OF \<open>wf_pairs (p # ps)\<close>, of p] by simp
    have lf1: "link_free (fs s1)"
      using process_file_link_free [OF ok \<open>link_free (fs s)\<close>] s1 by simp
    have "filter (duplicate (fs s1)) ps = filter (duplicate (fs s)) ps"
      using view_stable [OF \<open>wf_pairs (p # ps)\<close> _ \<open>link_free (fs s)\<close> s1]
      by (intro filter_cong) (simp_all add: duplicate_def)
    then show ?case
      using Cons.IH(1) [OF wf lf1 r] process_file_tally(1) [OF s1]
      by simp
  next
    case 2
    then obtain s1 where s1: "process_file (fst p) (snd p) s = Inr s1" and r: "run ps s1 = Inr s'"
      by (auto split: sum.splits)
    from 2 have wf: "wf_pairs ps" by (auto dest: wf_pairs_Cons)
    have ok: "entry_ok (fst p, snd p)"
      using wf_pairs_entry_ok [OF \<open>wf_pairs (p # ps)\<close>, of p] by simp
    have lf1: "link_free (fs s1)"
      using process_file_link_free [OF ok \<open>link_free (fs s)\<close>] s1 by simp
    have "filter (movable (fs s1)) ps = filter (movable (fs s)) ps"
      using view_stable [OF \<open>wf_pairs (p # ps)\<close> _ \<open>link_free (fs s)\<close> s1]
      by (intro filter_cong) (simp_all add: movable_def)
    then show ?case
      using Cons.IH(2) [OF wf lf1 r] process_file_tally(2) [OF s1]
      by simp
  next
    case 3
    then obtain s1 where s1: "process_file (fst p) (snd p) s = Inr s1" and r: "run ps s1 = Inr s'"
      by (auto split: sum.splits)
    from 3 have wf: "wf_pairs ps" by (auto dest: wf_pairs_Cons)
    have ok: "entry_ok (fst p, snd p)"
      using wf_pairs_entry_ok [OF \<open>wf_pairs (p # ps)\<close>, of p] by simp
    have lf1: "link_free (fs s1)"
      using process_file_link_free [OF ok \<open>link_free (fs s)\<close>] s1 by simp
    have f: "filter (\<lambda>p. os_path_exists (fs s1) (snd p)) ps
           = filter (\<lambda>p. os_path_exists (fs s) (snd p)) ps"
      using view_stable [OF \<open>wf_pairs (p # ps)\<close> _ \<open>link_free (fs s)\<close> s1]
      by (intro filter_cong) simp_all
    have "map (action_msg (fs s1)) (filter (\<lambda>p. os_path_exists (fs s) (snd p)) ps)
        = map (action_msg (fs s)) (filter (\<lambda>p. os_path_exists (fs s) (snd p)) ps)"
      using view_stable [OF \<open>wf_pairs (p # ps)\<close> _ \<open>link_free (fs s)\<close> s1]
      by (intro map_cong) (simp_all add: action_msg_def)
    with f show ?case
      using Cons.IH(3) [OF wf lf1 r] process_file_tally(3) [OF s1]
      by simp
  }
qed

lemma run_absent:
  "\<forall>p \<in> set ps. \<not> os_path_exists (fs s) (snd p) \<Longrightarrow> run ps s = Inr s"
  by (induction ps) (simp_all add: process_file_skip)

lemma run_unlisted:
  assumes "\<forall>p \<in> set ps. entry_ok p \<and> f \<notin> set (split_path (fst p))"
    and "plain_name f" and "link_free (fs s)" and "\<not> os_path_exists (fs s) f"
  shows "run (filter (\<lambda>p. snd p \<noteq> f) ps) s = run ps s"
  using assms
proof (induction ps arbitrary: s)
  case Nil
  then show ?case by simp
next
  case (Cons p ps)
  show ?case
  proof (cases "snd p = f")
    case True
    with Cons.prems have "process_file (fst p) (snd p) s = Inr s"
      by (simp add: process_file_skip)
    with True Cons show ?thesis by simp
  next
    case False
    show ?thesis
    proof (cases "process_file (fst p) (snd p) s")
      case (Inl x)
      with False show ?thesis by simp
    next
      case (Inr s1)
      from Cons.prems have ok: "entry_ok (fst p, snd p)" and
        nd: "f \<notin> set (split_path (fst p))" "split_path (fst p) \<noteq> []"
        by (simp_all add: entry_ok_def)
      have "\<not> prefix [f] (split_path (fst p))"
        using not_prefix_name [of "split_path (fst p)" f "[]"] nd by simp
      moreover have "\<not> prefix (target (fst p, snd p)) [f]"
        using nd by (simp add: target_def not_prefix_longer)
      ultimately have "\<not> touches (fst p, snd p) [f]"
        using False by (simp add: touches_def)
      then have "lookup_node (fs s1) [f] = lookup_node (fs s) [f]"
        using process_file_frame [OF ok Cons.prems(3), of "[f]"] Inr by simp
      moreover have lf1: "link_free (fs s1)"
        using process_file_link_free [OF ok Cons.prems(3)] Inr by simp
      ultimately have "\<not> os_path_exists (fs s1) f"
        using Cons.prems by (simp add: exists_root)
      with Cons lf1 Inr False show ?thesis by simp
    qed
  qed
qed

lemma wf_pairs_mset: "mset ps' = mset ps \<Longrightarrow> wf_pairs ps' = wf_pairs ps"
proof -
  assume m: "mset ps' = mset ps"
  then have s: "set ps' = set ps" by (rule mset_eq_setD)
  from m have "mset (map snd ps') = mset (map snd ps)" by simp
  then have "distinct (map snd ps') = distinct (map snd ps)"
    by (rule mset_eq_imp_distinct_iff)
  with s show ?thesis by (simp add: wf_pairs_def)
qed

lemma present_split:
  "length (filter (duplicate t) ps) + length (filter (movable t) ps)
   = length (filter (\<lambda>p. os_path_exists t (snd p)) ps)"
  by (induction ps) (auto simp: duplicate_def movable_def)

lemma length_filter_mset:
  "mset ps' = mset ps \<Longrightarrow> length (filter P ps') = length (filter P ps)"
  by (metis mset_filter size_mset)

lemma map_snd_flat: "map snd (flat m) = concat (map snd m)"
  by (induction m) (auto simp: flat_def comp_def)

text \<open>Whatever the links: every action prints one line and counts once.\<close>

lemma run_lines:
  "run ps s = Inr s' \<Longrightarrow>
   int (length (out s')) - (deleted_count s' + moved_count s')
   = int (length (out s)) - (deleted_count s + moved_count s)"
proof (induction ps arbitrary: s)
  case Nil
  then show ?case by simp
next
  case (Cons p ps)
  then obtain s1 where s1: "process_file (fst p) (snd p) s = Inr s1" and r: "run ps s1 = Inr s'"
    by (auto split: sum.splits)
  have "int (length (out s1)) - (deleted_count s1 + moved_count s1)
      = int (length (out s)) - (deleted_count s + moved_count s)"
    using process_file_counts [OF s1] by simp
  with Cons.IH [OF r] show ?case by simp
qed

section \<open>The table of the script\<close>

text \<open>The literal is well formed; each fact is checked by computation.\<close>

lemma names_distinct: "distinct (concat (map snd mapping))"
  unfolding mapping_def by simp

lemma names_plain: "list_all plain_name (concat (map snd mapping))"
  by code_simp

lemma dirs_apart:
  "list_all (\<lambda>d. split_path d \<noteq> [] \<and>
      list_all (\<lambda>c. c \<notin> set (concat (map snd mapping))) (split_path d)) (map fst mapping)"
  unfolding mapping_def split_path_def by simp

lemma dirs_down: "list_all (\<lambda>d. ''..'' \<notin> set (split_path d)) (map fst mapping)"
  by code_simp

text \<open>
  Every path the script hands to the operating system is relative and has no \<^verbatim>\<open>..\<close>
  component, so resolving it from the working directory needs nothing above it.
\<close>

lemma mapping_paths:
  "list_all (\<lambda>(d, f).
      hd f \<noteq> CHR ''/'' \<and> ''..'' \<notin> set (components f) \<and>
      hd (os_path_join d f) \<noteq> CHR ''/'' \<and> ''..'' \<notin> set (components (os_path_join d f)))
    (flat mapping)"
  by code_simp

lemma fst_flat: "p \<in> set (flat m) \<Longrightarrow> fst p \<in> set (map fst m)"
  by (induction m) (auto simp: flat_def)

lemma snd_flat: "p \<in> set (flat m) \<Longrightarrow> snd p \<in> set (concat (map snd m))"
  using map_snd_flat [of m] by (metis image_eqI set_map)

lemma wf_mapping: "wf_pairs (flat mapping)"
proof -
  have P: "\<forall>f \<in> set (concat (map snd mapping)). plain_name f"
    using names_plain by (simp only: list_all_iff)
  have D: "\<forall>d \<in> set (map fst mapping). split_path d \<noteq> [] \<and>
      (\<forall>c \<in> set (split_path d). c \<notin> set (concat (map snd mapping)))"
    using dirs_apart by (simp only: list_all_iff)
  have 1: "distinct (map snd (flat mapping))"
    by (simp add: map_snd_flat names_distinct)
  have U: "\<forall>d \<in> set (map fst mapping). ''..'' \<notin> set (split_path d)"
    using dirs_down by (simp only: list_all_iff)
  have 2: "plain_name (snd p) \<and> split_path (fst p) \<noteq> [] \<and> ''..'' \<notin> set (split_path (fst p))"
    if "p \<in> set (flat mapping)" for p
    using that P D U fst_flat [of p mapping] snd_flat [of p mapping] by blast
  have 3: "snd p' \<notin> set (split_path (fst p))"
    if "p \<in> set (flat mapping)" "p' \<in> set (flat mapping)" for p p'
    using that D fst_flat [of p mapping] snd_flat [of p' mapping] by blast
  from 1 2 3 show ?thesis
    unfolding wf_pairs_def by blast
qed

section \<open>Properties of a run\<close>

lemma cleanup_with_Inr:
  assumes "cleanup_with m rf t = Inr (s, v)"
  obtains s' where "run (flat m) (start t) = Inr s'"
    and "s = print (finished_msg (deleted_count s') (moved_count s')) s'" and "v = PyNone"
  using assms by (auto simp: cleanup_with_def for_items_run split: sum.splits)

lemma cleanup_listed: "root_files_of t = Inr names \<Longrightarrow> cleanup t = cleanup_with mapping rf t"
  by (simp add: cleanup_def cleanup_body_def cleanup_with_def)

lemma cleanup_listable: "listable t \<Longrightarrow> cleanup t = cleanup_with mapping rf t"
  using root_files_of_listable [of t] cleanup_listed [of t] by auto

lemma cleanup_unlisted: "root_files_of t = Inl e \<Longrightarrow> cleanup t = Inl (e, start t)"
  by (simp add: cleanup_def)

lemma cleanup_Inr:
  assumes "cleanup t = Inr (s, v)"
  obtains s' where "run (flat mapping) (start t) = Inr s'"
    and "s = print (finished_msg (deleted_count s') (moved_count s')) s'" and "v = PyNone"
    and "listable t"
proof -
  from assms have d: "listable t"
    using root_files_of_listable [of t] cleanup_unlisted [of t]
    by (cases "root_files_of t") auto
  then have "cleanup_with mapping [] t = Inr (s, v)"
    using assms cleanup_listable [of t "[]"] by simp
  then show thesis
    using d that by (auto elim: cleanup_with_Inr)
qed

lemma flat_plain: "(d, f) \<in> set (flat mapping) \<Longrightarrow> plain_name f"
  using wf_mapping by (auto simp: wf_pairs_def)

lemma flat_down: "(d, f) \<in> set (flat mapping) \<Longrightarrow> ''..'' \<notin> set (split_path d)"
  using wf_mapping by (auto simp: wf_pairs_def)

lemma flat_entry_ok: "\<forall>p \<in> set (flat mapping). entry_ok p"
  using wf_mapping wf_pairs_entry_ok by blast

lemma fs_start [simp]: "fs (start t) = t"
  and out_start [simp]: "out (start t) = []"
  and deleted_start [simp]: "deleted_count (start t) = 0"
  and moved_start [simp]: "moved_count (start t) = 0"
  by (simp_all add: start_def)

text \<open>What a run on a tree without links leaves for one entry of the table.\<close>

lemma run_mapping_view:
  assumes lf: "link_free t" and r: "run (flat mapping) (start t) = Inr s'"
    and m: "(d, f) \<in> set (flat mapping)"
  shows "link_free (fs s')"
    and "node_at (fs s') f = None"
    and "node_at (fs s') (os_path_join d f) =
           (case node_at t (os_path_join d f) of None \<Rightarrow> node_at t f | Some n \<Rightarrow> Some n)"
proof -
  have f: "plain_name f" using m by (rule flat_plain)
  have up: "''..'' \<notin> set (split_path d)" using m by (rule flat_down)
  show lf': "link_free (fs s')"
    using run_link_free [of "flat mapping" "start t"] flat_entry_ok lf r by simp
  have "lookup_node (fs s') [snd (d, f)] = None"
    using wf_mapping m _ r by (rule run_view(1)) (simp add: lf)
  then show "node_at (fs s') f = None"
    using f lf' by (simp add: node_at_root)
  have "lookup_node (fs s') (target (d, f)) =
      (case lookup_node (fs (start t)) (target (d, f)) of
         None \<Rightarrow> lookup_node (fs (start t)) [snd (d, f)] | Some n \<Rightarrow> Some n)"
    using wf_mapping m _ r by (rule run_view(2)) (simp add: lf)
  then show "node_at (fs s') (os_path_join d f) =
           (case node_at t (os_path_join d f) of None \<Rightarrow> node_at t f | Some n \<Rightarrow> Some n)"
    using f up lf lf' by (simp add: node_at_root node_at_target split: option.splits)
qed

text \<open>
  Claim C1, amended. As stated the claim fails in two ways, both in the counterexample
  below. When the target directory is missing, \<^verbatim>\<open>os.rename\<close> raises and the file stays
  at the root. When the root entry is a symbolic link with a relative target, the run
  completes, the link is moved, and in its new directory it leads nowhere: the file
  exists at neither place. On a tree without symbolic links and for a run that completes
  without an error: every listed filename that exists at the root and not at its target
  path when \<open>cleanup\<close> starts is, after the run, absent from the root and present at its
  target path with the node that was at the root; and \<open>moved_count\<close> ends as the number
  of such listed filenames, one increment for each.
\<close>

theorem root_only_file_is_moved:
  assumes "link_free t" and "cleanup t = Inr (s, v)" and "(d, f) \<in> set (flat mapping)"
    and "os_path_exists t f" and "\<not> os_path_exists t (os_path_join d f)"
  shows "\<not> os_path_exists (fs s) f \<and>
         node_at (fs s) (os_path_join d f) = node_at t f \<and>
         moved_count s = int (length (filter (movable t) (flat mapping)))"
proof -
  from assms(2) obtain s' where r: "run (flat mapping) (start t) = Inr s'"
    and s: "s = print (finished_msg (deleted_count s') (moved_count s')) s'"
    by (rule cleanup_Inr)
  have 1: "\<not> os_path_exists (fs s) f"
    using run_mapping_view(2) [OF assms(1) r assms(3)] s by (simp add: os_path_exists_def)
  have 2: "node_at (fs s) (os_path_join d f) = node_at t f"
    using run_mapping_view(3) [OF assms(1) r assms(3)] assms(5) s
    by (simp add: os_path_exists_def)
  have 3: "moved_count s = int (length (filter (movable t) (flat mapping)))"
    using run_counts(2) [OF wf_mapping _ r] assms(1) s by simp
  from 1 2 3 show ?thesis by simp
qed

theorem move_can_fail_or_dangle_counterexample:
  "(''client/src/components/ui/'', ''button.tsx'') \<in> set (flat mapping) \<and>
   os_path_exists (Dir True True [(''button.tsx'', File ''x'')]) ''button.tsx'' \<and>
   \<not> os_path_exists (Dir True True [(''button.tsx'', File ''x'')]) (os_path_join
     ''client/src/components/ui/'' ''button.tsx'') \<and>
   cleanup (Dir True True [(''button.tsx'', File ''x'')]) = Inl (FileNotFoundError, \<lparr>fs
     = Dir True True [(''button.tsx'', File ''x'')], out =
     [''Moving button.tsx to client/src/components/ui/''], deleted_count = 0, moved_count =
     0\<rparr>) \<and>
   (''client/'', ''index.html'') \<in> set (flat mapping) \<and>
   os_path_exists (Dir True True [(''index.html'', Link ''assets/index.html''), (''assets'',
     Dir True True [(''index.html'', File ''h'')]), (''client'', Dir True True [])])
     ''index.html'' \<and>
   \<not> os_path_exists (Dir True True [(''index.html'', Link ''assets/index.html''),
     (''assets'', Dir True True [(''index.html'', File ''h'')]), (''client'', Dir True True
     [])]) (os_path_join ''client/'' ''index.html'') \<and>
   cleanup (Dir True True [(''index.html'', Link ''assets/index.html''), (''assets'', Dir True
     True [(''index.html'', File ''h'')]), (''client'', Dir True True [])]) = Inr (\<lparr>fs =
     Dir True True [(''assets'', Dir True True [(''index.html'', File ''h'')]), (''client'',
     Dir True True [(''index.html'', Link ''assets/index.html'')])], out =
     [''Moving index.html to client/'', ''Cleanup finished. Deleted: 0, Moved: 1''],
     deleted_count = 0, moved_count = 1\<rparr>, PyNone) \<and>
   \<not> os_path_exists (Dir True True [(''assets'', Dir True True [(''index.html'', File
     ''h'')]), (''client'', Dir True True [(''index.html'', Link ''assets/index.html'')])])
     ''index.html'' \<and>
   \<not> os_path_exists (Dir True True [(''assets'', Dir True True [(''index.html'', File
     ''h'')]), (''client'', Dir True True [(''index.html'', Link ''assets/index.html'')])])
     (os_path_join ''client/'' ''index.html'')"
  by code_simp

theorem root_only_file_is_moved_witness:
  "link_free (Dir True True [(''index.html'', File ''h''), (''client'', Dir True True [])])
     \<and>
   cleanup (Dir True True [(''index.html'', File ''h''), (''client'', Dir True True [])]) = Inr
     (\<lparr>fs = Dir True True [(''client'', Dir True True [(''index.html'', File ''h'')])],
     out = [''Moving index.html to client/'', ''Cleanup finished. Deleted: 0, Moved: 1''],
     deleted_count = 0, moved_count = 1\<rparr>, PyNone) \<and>
   (''client/'', ''index.html'') \<in> set (flat mapping) \<and>
   os_path_exists (Dir True True [(''index.html'', File ''h''), (''client'', Dir True True
     [])]) ''index.html'' \<and>
   \<not> os_path_exists (Dir True True [(''index.html'', File ''h''), (''client'', Dir True
     True [])]) (os_path_join ''client/'' ''index.html'') \<and>
   \<not> os_path_exists (Dir True True [(''client'', Dir True True [(''index.html'', File
     ''h'')])]) ''index.html'' \<and>
   node_at (Dir True True [(''client'', Dir True True [(''index.html'', File ''h'')])])
     (os_path_join ''client/'' ''index.html'') = node_at (Dir True True [(''index.html'', File
     ''h''), (''client'', Dir True True [])]) ''index.html'' \<and>
   (1::int) = int (length (filter (movable (Dir True True [(''index.html'', File ''h''),
     (''client'', Dir True True [])])) (flat mapping)))"
proof -
  let ?t = "Dir True True [(''index.html'', File ''h''), (''client'', Dir True True [])]"
  let ?s = "\<lparr>fs = Dir True True [(''client'', Dir True True [(''index.html'', File
     ''h'')])], out = [''Moving index.html to client/'',
     ''Cleanup finished. Deleted: 0, Moved: 1''], deleted_count = 0, moved_count = 1\<rparr>"
  have 0: "link_free ?t" by code_simp
  have 1: "cleanup ?t = Inr (?s, PyNone)" by code_simp
  have 2: "(''client/'', ''index.html'') \<in> set (flat mapping)" by code_simp
  have 3: "os_path_exists ?t ''index.html''" by code_simp
  have 4: "\<not> os_path_exists ?t (os_path_join ''client/'' ''index.html'')" by code_simp
  from root_only_file_is_moved [OF 0 1 2 3 4] 0 1 2 3 4 show ?thesis by simp
qed

text \<open>
  Claim C2, amended. As stated the claim fails in two ways, both in the counterexample
  below. In a read-only working directory \<^verbatim>\<open>os.remove\<close> raises and the root copy
  stays. When the target directory is a symbolic link to the working directory, the
  target path names the root copy itself: the run completes, the root copy is removed
  and nothing is left at the target path. On a tree without symbolic links and for a
  run that completes without an error: every listed filename that exists both at the
  root and at its target path when \<open>cleanup\<close> starts is, after the run, absent from the
  root, the node at its target path is the one that was there before, and
  \<open>deleted_count\<close> ends as the number of such listed filenames, one increment for each.
\<close>

theorem duplicate_is_removed:
  assumes "link_free t" and "cleanup t = Inr (s, v)" and "(d, f) \<in> set (flat mapping)"
    and "os_path_exists t f" and "os_path_exists t (os_path_join d f)"
  shows "\<not> os_path_exists (fs s) f \<and>
         node_at (fs s) (os_path_join d f) = node_at t (os_path_join d f) \<and>
         deleted_count s = int (length (filter (duplicate t) (flat mapping)))"
proof -
  from assms(2) obtain s' where r: "run (flat mapping) (start t) = Inr s'"
    and s: "s = print (finished_msg (deleted_count s') (moved_count s')) s'"
    by (rule cleanup_Inr)
  have 1: "\<not> os_path_exists (fs s) f"
    using run_mapping_view(2) [OF assms(1) r assms(3)] s by (simp add: os_path_exists_def)
  have 2: "node_at (fs s) (os_path_join d f) = node_at t (os_path_join d f)"
    using run_mapping_view(3) [OF assms(1) r assms(3)] assms(5) s
    by (auto simp: os_path_exists_def)
  have 3: "deleted_count s = int (length (filter (duplicate t) (flat mapping)))"
    using run_counts(1) [OF wf_mapping _ r] assms(1) s by simp
  from 1 2 3 show ?thesis by simp
qed

theorem duplicate_can_stay_or_vanish_counterexample:
  "(''server/'', ''auth.ts'') \<in> set (flat mapping) \<and>
   os_path_exists (Dir True False [(''auth.ts'', File ''a''), (''server'', Dir True True
     [(''auth.ts'', File ''b'')])]) ''auth.ts'' \<and>
   os_path_exists (Dir True False [(''auth.ts'', File ''a''), (''server'', Dir True True
     [(''auth.ts'', File ''b'')])]) (os_path_join ''server/'' ''auth.ts'') \<and>
   cleanup (Dir True False [(''auth.ts'', File ''a''), (''server'', Dir True True
     [(''auth.ts'', File ''b'')])]) = Inl (PermissionError, \<lparr>fs = Dir True False
     [(''auth.ts'', File ''a''), (''server'', Dir True True [(''auth.ts'', File ''b'')])], out
     = [''Removing duplicate: auth.ts (already in server/)''], deleted_count = 0, moved_count =
     0\<rparr>) \<and>
   os_path_exists (Dir True True [(''auth.ts'', File ''a''), (''server'', Link ''.'')])
     ''auth.ts'' \<and>
   os_path_exists (Dir True True [(''auth.ts'', File ''a''), (''server'', Link ''.'')])
     (os_path_join ''server/'' ''auth.ts'') \<and>
   cleanup (Dir True True [(''auth.ts'', File ''a''), (''server'', Link ''.'')]) = Inr
     (\<lparr>fs = Dir True True [(''server'', Link ''.'')], out =
     [''Removing duplicate: auth.ts (already in server/)'',
     ''Cleanup finished. Deleted: 1, Moved: 0''], deleted_count = 1, moved_count = 0\<rparr>,
     PyNone) \<and>
   \<not> os_path_exists (Dir True True [(''server'', Link ''.'')]) (os_path_join ''server/''
     ''auth.ts'')"
  by code_simp

theorem duplicate_is_removed_witness:
  "link_free (Dir True True [(''auth.ts'', File ''a''), (''server'', Dir True True
     [(''auth.ts'', File ''b'')])]) \<and>
   cleanup (Dir True True [(''auth.ts'', File ''a''), (''server'', Dir True True [(''auth.ts'',
     File ''b'')])]) = Inr (\<lparr>fs = Dir True True [(''server'', Dir True True
     [(''auth.ts'', File ''b'')])], out =
     [''Removing duplicate: auth.ts (already in server/)'',
     ''Cleanup finished. Deleted: 1, Moved: 0''], deleted_count = 1, moved_count = 0\<rparr>,
     PyNone) \<and>
   (''server/'', ''auth.ts'') \<in> set (flat mapping) \<and>
   os_path_exists (Dir True True [(''auth.ts'', File ''a''), (''server'', Dir True True
     [(''auth.ts'', File ''b'')])]) ''auth.ts'' \<and>
   os_path_exists (Dir True True [(''auth.ts'', File ''a''), (''server'', Dir True True
     [(''auth.ts'', File ''b'')])]) (os_path_join ''server/'' ''auth.ts'') \<and>
   \<not> os_path_exists (Dir True True [(''server'', Dir True True [(''auth.ts'', File
     ''b'')])]) ''auth.ts'' \<and>
   node_at (Dir True True [(''server'', Dir True True [(''auth.ts'', File ''b'')])])
     (os_path_join ''server/'' ''auth.ts'') = node_at (Dir True True [(''auth.ts'', File
     ''a''), (''server'', Dir True True [(''auth.ts'', File ''b'')])]) (os_path_join
     ''server/'' ''auth.ts'') \<and>
   (1::int) = int (length (filter (duplicate (Dir True True [(''auth.ts'', File ''a''),
     (''server'', Dir True True [(''auth.ts'', File ''b'')])])) (flat mapping)))"
proof -
  let ?t = "Dir True True [(''auth.ts'', File ''a''), (''server'', Dir True True [(''auth.ts'',
     File ''b'')])]"
  let ?s = "\<lparr>fs = Dir True True [(''server'', Dir True True [(''auth.ts'', File
     ''b'')])], out = [''Removing duplicate: auth.ts (already in server/)'',
     ''Cleanup finished. Deleted: 1, Moved: 0''], deleted_count = 1, moved_count = 0\<rparr>"
  have 0: "link_free ?t" by code_simp
  have 1: "cleanup ?t = Inr (?s, PyNone)" by code_simp
  have 2: "(''server/'', ''auth.ts'') \<in> set (flat mapping)" by code_simp
  have 3: "os_path_exists ?t ''auth.ts''" by code_simp
  have 4: "os_path_exists ?t (os_path_join ''server/'' ''auth.ts'')" by code_simp
  from duplicate_is_removed [OF 0 1 2 3 4] 0 1 2 3 4 show ?thesis by simp
qed

text \<open>
  Claim C3, amended. As stated the claim fails in two ways, both in the counterexample
  below. The script creates no file, so a listed filename that was at neither place
  before the run is at neither place after it. And a dangling symbolic link at the root
  is skipped, but starts to lead somewhere once the run has moved its target there: it
  then exists at the root after a run without an error. On a tree without symbolic
  links, after a run that completes without an error, no listed filename exists at the
  root, and a listed filename exists at its target path exactly when it existed at the
  root or at its target path before the run.
\<close>

theorem listed_files_end_at_target_only:
  assumes "link_free t" and "cleanup t = Inr (s, v)" and "(d, f) \<in> set (flat mapping)"
  shows "\<not> os_path_exists (fs s) f \<and>
         (os_path_exists (fs s) (os_path_join d f)
            \<longleftrightarrow> os_path_exists t f \<or> os_path_exists t (os_path_join d f))"
proof -
  from assms(2) obtain s' where r: "run (flat mapping) (start t) = Inr s'"
    and s: "s = print (finished_msg (deleted_count s') (moved_count s')) s'"
    by (rule cleanup_Inr)
  have 1: "\<not> os_path_exists (fs s) f"
    using run_mapping_view(2) [OF assms(1) r assms(3)] s by (simp add: os_path_exists_def)
  have 2: "os_path_exists (fs s) (os_path_join d f)
            \<longleftrightarrow> os_path_exists t f \<or> os_path_exists t (os_path_join d f)"
    using run_mapping_view(3) [OF assms(1) r assms(3)] s
    by (auto simp: os_path_exists_def split: option.splits)
  from 1 2 show ?thesis by simp
qed

theorem listed_file_can_be_nowhere_or_at_root_counterexample:
  "cleanup (Dir True True [(''drizzle'', Dir True True [])]) = Inr (\<lparr>fs = Dir True True
     [(''drizzle'', Dir True True [])], out = [''Cleanup finished. Deleted: 0, Moved: 0''],
     deleted_count = 0, moved_count = 0\<rparr>, PyNone) \<and>
   (''drizzle/'', ''schema.ts'') \<in> set (flat mapping) \<and>
   \<not> os_path_exists (Dir True True [(''drizzle'', Dir True True [])]) (os_path_join
     ''drizzle/'' ''schema.ts'') \<and>
   cleanup (Dir True True [(''db.ts'', File ''d''), (''auth.ts'', Link ''server/db.ts''),
     (''server'', Dir True True [])]) = Inr (\<lparr>fs = Dir True True [(''auth.ts'', Link
     ''server/db.ts''), (''server'', Dir True True [(''db.ts'', File ''d'')])], out =
     [''Moving db.ts to server/'', ''Cleanup finished. Deleted: 0, Moved: 1''], deleted_count =
     0, moved_count = 1\<rparr>, PyNone) \<and>
   (''server/'', ''auth.ts'') \<in> set (flat mapping) \<and>
   os_path_exists (Dir True True [(''auth.ts'', Link ''server/db.ts''), (''server'', Dir True
     True [(''db.ts'', File ''d'')])]) ''auth.ts''"
  by code_simp

theorem listed_files_end_at_target_only_witness:
  "link_free (Dir True True [(''schema.ts'', File ''s''), (''drizzle'', Dir True True [])])
     \<and>
   cleanup (Dir True True [(''schema.ts'', File ''s''), (''drizzle'', Dir True True [])]) = Inr
     (\<lparr>fs = Dir True True [(''drizzle'', Dir True True [(''schema.ts'', File ''s'')])],
     out = [''Moving schema.ts to drizzle/'', ''Cleanup finished. Deleted: 0, Moved: 1''],
     deleted_count = 0, moved_count = 1\<rparr>, PyNone) \<and>
   (''drizzle/'', ''schema.ts'') \<in> set (flat mapping) \<and>
   \<not> os_path_exists (Dir True True [(''drizzle'', Dir True True [(''schema.ts'', File
     ''s'')])]) ''schema.ts'' \<and>
   (os_path_exists (Dir True True [(''drizzle'', Dir True True [(''schema.ts'', File ''s'')])])
     (os_path_join ''drizzle/'' ''schema.ts'') \<longleftrightarrow> os_path_exists (Dir True
     True [(''schema.ts'', File ''s''), (''drizzle'', Dir True True [])]) ''schema.ts'' \<or>
     os_path_exists (Dir True True [(''schema.ts'', File ''s''), (''drizzle'', Dir True True
     [])]) (os_path_join ''drizzle/'' ''schema.ts''))"
proof -
  let ?t = "Dir True True [(''schema.ts'', File ''s''), (''drizzle'', Dir True True [])]"
  let ?s = "\<lparr>fs = Dir True True [(''drizzle'', Dir True True [(''schema.ts'', File
     ''s'')])], out = [''Moving schema.ts to drizzle/'',
     ''Cleanup finished. Deleted: 0, Moved: 1''], deleted_count = 0, moved_count = 1\<rparr>"
  have 0: "link_free ?t" by code_simp
  have 1: "cleanup ?t = Inr (?s, PyNone)" by code_simp
  have 2: "(''drizzle/'', ''schema.ts'') \<in> set (flat mapping)" by code_simp
  from listed_files_end_at_target_only [OF 0 1 2] 0 1 2 show ?thesis by simp
qed

lemma run_total:
  assumes "wf_pairs ps" "link_free (fs s)" "run ps s = Inr s'"
  shows "deleted_count s' + moved_count s'
         = deleted_count s + moved_count s
           + int (length (filter (os_path_exists (fs s)) (map snd ps)))"
proof -
  have "length (filter (os_path_exists (fs s)) (map snd ps))
      = length (filter (\<lambda>p. os_path_exists (fs s) (snd p)) ps)"
    by (simp add: filter_map comp_def)
  then show ?thesis
    using run_counts(1,2) [OF assms] present_split [of "fs s" ps] by simp
qed

text \<open>
  Claim C4, amended. As stated the claim fails (counterexample below): a dangling
  symbolic link at the root does not exist when the run starts, but exists once the run
  has moved its target into place, so it is moved too when the table lists its target
  before it and skipped when the table lists it first. The sum is then 2 in one order
  and 1 in the other, for one listed filename that exists at the start. On a tree
  without symbolic links: after a run of \<open>cleanup\<close> that completes without an error,
  \<open>deleted_count + moved_count\<close> is the number of listed filenames that existed at the
  root when the run started, and the same holds for the script run over any dictionary
  \<open>m\<close> that lists the same (directory, filename) pairs in another order.
\<close>

theorem action_count_is_order_independent:
  assumes "link_free t"
  shows "(cleanup t = Inr (s, v) \<longrightarrow>
      deleted_count s + moved_count s
        = int (length (filter (os_path_exists t) (concat (map snd mapping))))) \<and>
   (mset (flat m) = mset (flat mapping) \<longrightarrow> cleanup_with m root_files t = Inr (s', v') \<longrightarrow>
      deleted_count s' + moved_count s'
        = int (length (filter (os_path_exists t) (concat (map snd mapping)))))"
proof (intro conjI impI)
  assume "cleanup t = Inr (s, v)"
  then obtain s1 where r: "run (flat mapping) (start t) = Inr s1"
    and s: "s = print (finished_msg (deleted_count s1) (moved_count s1)) s1"
    by (rule cleanup_Inr)
  show "deleted_count s + moved_count s
        = int (length (filter (os_path_exists t) (concat (map snd mapping))))"
    using run_total [OF wf_mapping _ r] assms s by (simp add: map_snd_flat)
next
  assume m: "mset (flat m) = mset (flat mapping)"
    and c: "cleanup_with m root_files t = Inr (s', v')"
  from c obtain s1 where r: "run (flat m) (start t) = Inr s1"
    and s: "s' = print (finished_msg (deleted_count s1) (moved_count s1)) s1"
    by (rule cleanup_with_Inr)
  have wf: "wf_pairs (flat m)"
    using wf_pairs_mset [OF m] wf_mapping by simp
  have "length (filter (os_path_exists t) (map snd (flat m)))
      = length (filter (\<lambda>p. os_path_exists t (snd p)) (flat m))"
    by (simp add: filter_map comp_def)
  also have "\<dots> = length (filter (\<lambda>p. os_path_exists t (snd p)) (flat mapping))"
    using m by (rule length_filter_mset)
  also have "\<dots> = length (filter (os_path_exists t) (map snd (flat mapping)))"
    by (simp add: filter_map comp_def)
  finally show "deleted_count s' + moved_count s'
        = int (length (filter (os_path_exists t) (concat (map snd mapping))))"
    using run_total [OF wf _ r] assms s by (simp add: map_snd_flat)
qed

lemma mset_flat_rev: "mset (flat (rev m)) = mset (flat m)"
  by (induction m) (simp_all add: flat_def)

theorem action_count_depends_on_order_counterexample:
  "filter (os_path_exists (Dir True True [(''types.ts'', File ''t''), (''auth.ts'', Link
     ''shared/types.ts''), (''shared'', Dir True True []), (''server'', Dir True True [])]))
     (concat (map snd mapping)) = [''types.ts''] \<and>
   cleanup (Dir True True [(''types.ts'', File ''t''), (''auth.ts'', Link ''shared/types.ts''),
     (''shared'', Dir True True []), (''server'', Dir True True [])]) = Inr (\<lparr>fs = Dir
     True True [(''auth.ts'', Link ''shared/types.ts''), (''shared'', Dir True True
     [(''types.ts'', File ''t'')]), (''server'', Dir True True [])], out =
     [''Moving types.ts to shared/'', ''Cleanup finished. Deleted: 0, Moved: 1''],
     deleted_count = 0, moved_count = 1\<rparr>, PyNone) \<and>
   mset (flat (rev mapping)) = mset (flat mapping) \<and>
   cleanup_with (rev mapping) [] (Dir True True [(''types.ts'', File ''t''), (''auth.ts'', Link
     ''shared/types.ts''), (''shared'', Dir True True []), (''server'', Dir True True [])]) =
     Inr (\<lparr>fs = Dir True True [(''shared'', Dir True True [(''types.ts'', File ''t'')]),
     (''server'', Dir True True [(''auth.ts'', Link ''shared/types.ts'')])], out =
     [''Moving types.ts to shared/'', ''Moving auth.ts to server/'',
     ''Cleanup finished. Deleted: 0, Moved: 2''], deleted_count = 0, moved_count = 2\<rparr>,
     PyNone)"
proof -
  have "filter (os_path_exists (Dir True True [(''types.ts'', File ''t''), (''auth.ts'', Link
     ''shared/types.ts''), (''shared'', Dir True True []), (''server'', Dir True True [])]))
     (concat (map snd mapping)) = [''types.ts'']"
    by code_simp
  moreover have "cleanup (Dir True True [(''types.ts'', File ''t''), (''auth.ts'', Link
     ''shared/types.ts''), (''shared'', Dir True True []), (''server'', Dir True True [])]) =
     Inr (\<lparr>fs = Dir True True [(''auth.ts'', Link ''shared/types.ts''), (''shared'', Dir
     True True [(''types.ts'', File ''t'')]), (''server'', Dir True True [])], out =
     [''Moving types.ts to shared/'', ''Cleanup finished. Deleted: 0, Moved: 1''],
     deleted_count = 0, moved_count = 1\<rparr>, PyNone)"
    by code_simp
  moreover have "cleanup_with (rev mapping) [] (Dir True True [(''types.ts'', File ''t''),
     (''auth.ts'', Link ''shared/types.ts''), (''shared'', Dir True True []), (''server'', Dir
     True True [])]) = Inr (\<lparr>fs = Dir True True [(''shared'', Dir True True
     [(''types.ts'', File ''t'')]), (''server'', Dir True True [(''auth.ts'', Link
     ''shared/types.ts'')])], out = [''Moving types.ts to shared/'',
     ''Moving auth.ts to server/'', ''Cleanup finished. Deleted: 0, Moved: 2''], deleted_count
     = 0, moved_count = 2\<rparr>, PyNone)"
    by code_simp
  ultimately show ?thesis
    using mset_flat_rev [of mapping] by simp
qed

theorem action_count_is_order_independent_witness:
  "link_free (Dir True True [(''errors.ts'', File ''e''), (''types.ts'', File ''t''),
     (''shared'', Dir True True [(''types.ts'', File ''u''), (''_core'', Dir True True [])])])
     \<and>
   cleanup (Dir True True [(''errors.ts'', File ''e''), (''types.ts'', File ''t''),
     (''shared'', Dir True True [(''types.ts'', File ''u''), (''_core'', Dir True True [])])])
     = Inr (\<lparr>fs = Dir True True [(''shared'', Dir True True [(''types.ts'', File ''u''),
     (''_core'', Dir True True [(''errors.ts'', File ''e'')])])], out =
     [''Removing duplicate: types.ts (already in shared/)'',
     ''Moving errors.ts to shared/_core/'', ''Cleanup finished. Deleted: 1, Moved: 1''],
     deleted_count = 1, moved_count = 1\<rparr>, PyNone) \<and>
   mset (flat (rev mapping)) = mset (flat mapping) \<and>
   cleanup_with (rev mapping) [] (Dir True True [(''errors.ts'', File ''e''), (''types.ts'',
     File ''t''), (''shared'', Dir True True [(''types.ts'', File ''u''), (''_core'', Dir True
     True [])])]) = Inr (\<lparr>fs = Dir True True [(''shared'', Dir True True [(''types.ts'',
     File ''u''), (''_core'', Dir True True [(''errors.ts'', File ''e'')])])], out =
     [''Moving errors.ts to shared/_core/'',
     ''Removing duplicate: types.ts (already in shared/)'',
     ''Cleanup finished. Deleted: 1, Moved: 1''], deleted_count = 1, moved_count = 1\<rparr>,
     PyNone) \<and>
   (2::int) = int (length (filter (os_path_exists (Dir True True [(''errors.ts'', File ''e''),
     (''types.ts'', File ''t''), (''shared'', Dir True True [(''types.ts'', File ''u''),
     (''_core'', Dir True True [])])])) (concat (map snd mapping))))"
proof -
  let ?t = "Dir True True [(''errors.ts'', File ''e''), (''types.ts'', File ''t''),
     (''shared'', Dir True True [(''types.ts'', File ''u''), (''_core'', Dir True True [])])]"
  let ?s = "\<lparr>fs = Dir True True [(''shared'', Dir True True [(''types.ts'', File ''u''),
     (''_core'', Dir True True [(''errors.ts'', File ''e'')])])], out =
     [''Removing duplicate: types.ts (already in shared/)'',
     ''Moving errors.ts to shared/_core/'', ''Cleanup finished. Deleted: 1, Moved: 1''],
     deleted_count = 1, moved_count = 1\<rparr>"
  let ?s' = "\<lparr>fs = Dir True True [(''shared'', Dir True True [(''types.ts'', File
     ''u''), (''_core'', Dir True True [(''errors.ts'', File ''e'')])])], out =
     [''Moving errors.ts to shared/_core/'',
     ''Removing duplicate: types.ts (already in shared/)'',
     ''Cleanup finished. Deleted: 1, Moved: 1''], deleted_count = 1, moved_count = 1\<rparr>"
  have 0: "link_free ?t" by code_simp
  have 1: "cleanup ?t = Inr (?s, PyNone)" by code_simp
  have 2: "mset (flat (rev mapping)) = mset (flat mapping)" by (rule mset_flat_rev)
  have 3: "cleanup_with (rev mapping) [] ?t = Inr (?s', PyNone)" by code_simp
  from action_count_is_order_independent [OF 0, of ?s PyNone "rev mapping" "[]" ?s' PyNone] 0 1
     2 3
  show ?thesis by simp
qed

lemma print_start: "print l (start t) = \<lparr>fs = t, out = [l], deleted_count = 0, moved_count = 0\<rparr>"
  by (simp add: print_def start_def)

text \<open>
  Claim C5, amended. As stated the claim fails (counterexample below): a dangling
  symbolic link at the root is skipped by the first run, leads somewhere after it, and is
  moved by the second run, which ends with \<open>moved_count\<close> 1. On a tree without symbolic
  links: if a run of \<open>cleanup\<close> completes without an error, a second run on the tree it
  leaves completes without an error as well, leaves that tree as it is, prints only the
  summary line and ends with both counters at zero.
\<close>

theorem second_run_is_noop:
  assumes "link_free t" and "cleanup t = Inr (s, v)"
  shows "cleanup (fs s) =
           Inr (\<lparr>fs = fs s, out = [finished_msg 0 0], deleted_count = 0, moved_count = 0\<rparr>, PyNone)"
proof -
  from assms(2) obtain s' where r: "run (flat mapping) (start t) = Inr s'"
    and s: "s = print (finished_msg (deleted_count s') (moved_count s')) s'"
    and d: "listable t"
    by (rule cleanup_Inr)
  have "listable (fs (state_of (run (flat mapping) (start t))))"
    using d by (simp add: run_listable)
  with r s have dir: "listable (fs s)" by simp
  have gone: "\<forall>p \<in> set (flat mapping). \<not> os_path_exists (fs (start (fs s))) (snd p)"
  proof
    fix p assume p: "p \<in> set (flat mapping)"
    then have "node_at (fs s') (snd p) = None"
      using run_mapping_view(2) [OF assms(1) r, of "fst p" "snd p"] by simp
    then show "\<not> os_path_exists (fs (start (fs s))) (snd p)"
      using s by (simp add: os_path_exists_def)
  qed
  have "run (flat mapping) (start (fs s)) = Inr (start (fs s))"
    using gone by (rule run_absent)
  then have "cleanup_with mapping [] (fs s) = Inr (print (finished_msg 0 0) (start (fs s)), PyNone)"
    by (simp add: cleanup_with_def for_items_run)
  then show ?thesis
    using cleanup_listable [OF dir, of "[]"] by (simp add: print_start)
qed

theorem second_run_moves_link_counterexample:
  "cleanup (Dir True True [(''wallet.ts'', File ''w''), (''games.ts'', Link
     ''server/wallet.ts''), (''server'', Dir True True [])]) = Inr (\<lparr>fs = Dir True True
     [(''games.ts'', Link ''server/wallet.ts''), (''server'', Dir True True [(''wallet.ts'',
     File ''w'')])], out = [''Moving wallet.ts to server/'',
     ''Cleanup finished. Deleted: 0, Moved: 1''], deleted_count = 0, moved_count = 1\<rparr>,
     PyNone) \<and>
   cleanup (Dir True True [(''games.ts'', Link ''server/wallet.ts''), (''server'', Dir True
     True [(''wallet.ts'', File ''w'')])]) = Inr (\<lparr>fs = Dir True True [(''server'', Dir
     True True [(''wallet.ts'', File ''w''), (''games.ts'', Link ''server/wallet.ts'')])], out
     = [''Moving games.ts to server/'', ''Cleanup finished. Deleted: 0, Moved: 1''],
     deleted_count = 0, moved_count = 1\<rparr>, PyNone)"
  by code_simp

theorem second_run_is_noop_witness:
  "link_free (Dir True True [(''const.ts'', File ''c''), (''shared'', Dir True True [])]) \<and>
   cleanup (Dir True True [(''const.ts'', File ''c''), (''shared'', Dir True True [])]) = Inr
     (\<lparr>fs = Dir True True [(''shared'', Dir True True [(''const.ts'', File ''c'')])],
     out = [''Moving const.ts to shared/'', ''Cleanup finished. Deleted: 0, Moved: 1''],
     deleted_count = 0, moved_count = 1\<rparr>, PyNone) \<and>
   cleanup (Dir True True [(''shared'', Dir True True [(''const.ts'', File ''c'')])]) = Inr
     (\<lparr>fs = Dir True True [(''shared'', Dir True True [(''const.ts'', File ''c'')])],
     out = [finished_msg 0 0], deleted_count = 0, moved_count = 0\<rparr>, PyNone)"
proof -
  let ?t = "Dir True True [(''const.ts'', File ''c''), (''shared'', Dir True True [])]"
  let ?s = "\<lparr>fs = Dir True True [(''shared'', Dir True True [(''const.ts'', File
     ''c'')])], out = [''Moving const.ts to shared/'',
     ''Cleanup finished. Deleted: 0, Moved: 1''], deleted_count = 0, moved_count = 1\<rparr>"
  have 0: "link_free ?t" by code_simp
  have 1: "cleanup ?t = Inr (?s, PyNone)" by code_simp
  from second_run_is_noop [OF 0 1] 0 1 show ?thesis by simp
qed

text \<open>
  Claim C6. Let line 5 have returned, let the entries before \<open>(d, f)\<close> in iteration order
  be processed without an error, and let the delete or move for \<open>(d, f)\<close> fail with \<open>e\<close>.
  Then \<open>cleanup\<close> raises \<open>e\<close>; the state at the raise is the state before the failed call
  with only its message printed (same tree, same counters, no summary line); and every
  filename still to be processed has at the root the entry it had when the run started:
  the same file, the same link, or a directory with the same permission bits. What lies
  below such a directory can differ, when a move made before the failure went into it
  through a symbolic link; on a tree without symbolic links the whole node is the one of
  the start.
\<close>

theorem failure_halts_run:
  assumes "root_files_of t = Inr root_files"
    and "flat mapping = pre @ (d, f) # post"
    and "run pre (start t) = Inr s1"
    and "process_file d f s1 = Inl (e, s2)"
  shows "cleanup t = Inl (e, s2) \<and>
         fs s2 = fs s1 \<and> deleted_count s2 = deleted_count s1 \<and> moved_count s2 = moved_count s1 \<and>
         out s2 = out s1 @ [action_msg (fs s1) (d, f)] \<and>
         (\<forall>p \<in> set post.
            map_option entry_of (lookup_node (fs s2) (split_path (snd p)))
            = map_option entry_of (lookup_node t (split_path (snd p)))) \<and>
         (link_free t \<longrightarrow>
           (\<forall>p \<in> set post.
              lookup_node (fs s2) (split_path (snd p)) = lookup_node t (split_path (snd p))))"
proof -
  from assms(4) have s2: "s2 = print (action_msg (fs s1) (d, f)) s1"
    using process_file_raise [of d f s1 e s2] by (simp add: action_msg_def)
  have "run (flat mapping) (start t) = Inl (e, s2)"
    using assms(2,3,4) by (simp add: run_append)
  then have "cleanup_with mapping [] t = Inl (e, s2)"
    by (simp add: cleanup_with_def for_items_run)
  then have 1: "cleanup t = Inl (e, s2)"
    using cleanup_listed [OF assms(1), of "[]"] by simp
  have names: "distinct (map snd pre @ f # map snd post)"
    using wf_mapping assms(2) by (simp add: wf_pairs_def)
  have 2: "map_option entry_of (lookup_node (fs s2) (split_path (snd p)))
      = map_option entry_of (lookup_node t (split_path (snd p)))"
    if p: "p \<in> set post" for p
  proof -
    have pm: "p \<in> set (flat mapping)" using p assms(2) by simp
    have "\<forall>q \<in> set pre. plain_name (snd q) \<and> snd q \<noteq> snd p"
    proof
      fix q assume q: "q \<in> set pre"
      then have "q \<in> set (flat mapping)" using assms(2) by simp
      then have "plain_name (snd q)"
        using flat_plain [of "fst q" "snd q"] by simp
      moreover from names p q have "snd q \<noteq> snd p" by auto
      ultimately show "plain_name (snd q) \<and> snd q \<noteq> snd p" by simp
    qed
    then have "map_option entry_of (lookup_node (fs (state_of (run pre (start t)))) [snd p])
        = map_option entry_of (lookup_node (fs (start t)) [snd p])"
      by (rule run_entry)
    moreover have "plain_name (snd p)"
      using pm flat_plain [of "fst p" "snd p"] by simp
    ultimately show ?thesis
      using assms(3) s2 by (simp add: split_path_plain)
  qed
  have 3: "lookup_node (fs s2) (split_path (snd p)) = lookup_node t (split_path (snd p))"
    if lf: "link_free t" and p: "p \<in> set post" for p
  proof -
    have pm: "p \<in> set (flat mapping)" using p assms(2) by simp
    from names p have ne: "\<forall>q \<in> set pre. snd q \<noteq> snd p"
      by auto
    have "\<forall>q \<in> set pre. entry_ok q \<and> \<not> touches q [snd p]"
    proof
      fix q assume q: "q \<in> set pre"
      then have qm: "q \<in> set (flat mapping)" using assms(2) by simp
      from q ne have "snd q \<noteq> snd p" by blast
      then show "entry_ok q \<and> \<not> touches q [snd p]"
        using wf_pairs_apart(1) [OF wf_mapping qm pm] wf_pairs_entry_ok [OF wf_mapping qm]
        by simp
    qed
    then have "lookup_node (fs (state_of (run pre (start t)))) [snd p]
        = lookup_node (fs (start t)) [snd p]"
      by (rule run_frame) (simp add: lf)
    moreover have "plain_name (snd p)"
      using pm flat_plain [of "fst p" "snd p"] by simp
    ultimately show ?thesis
      using assms(3) s2 by (simp add: split_path_plain)
  qed
  from 1 2 3 s2 show ?thesis by simp
qed

theorem failure_halts_run_witness:
  "root_files_of (Dir True True [(''accordion.tsx'', File ''a''), (''alert-dialog.tsx'', Dir
     True True []), (''alert.tsx'', File ''c''), (''client'', Dir True True [(''src'', Dir True
     True [(''components'', Dir True True [(''ui'', Dir True True [(''alert-dialog.tsx'', File
     ''b'')])])])])]) = Inr [''accordion.tsx'', ''alert.tsx''] \<and>
   flat mapping = [(''client/src/components/ui/'', ''accordion.tsx'')] @
     (''client/src/components/ui/'', ''alert-dialog.tsx'') # drop 2 (flat mapping) \<and>
   run [(''client/src/components/ui/'', ''accordion.tsx'')] (start (Dir True True
     [(''accordion.tsx'', File ''a''), (''alert-dialog.tsx'', Dir True True []),
     (''alert.tsx'', File ''c''), (''client'', Dir True True [(''src'', Dir True True
     [(''components'', Dir True True [(''ui'', Dir True True [(''alert-dialog.tsx'', File
     ''b'')])])])])])) = Inr \<lparr>fs = Dir True True [(''alert-dialog.tsx'', Dir True True
     []), (''alert.tsx'', File ''c''), (''client'', Dir True True [(''src'', Dir True True
     [(''components'', Dir True True [(''ui'', Dir True True [(''alert-dialog.tsx'', File
     ''b''), (''accordion.tsx'', File ''a'')])])])])], out =
     [''Moving accordion.tsx to client/src/components/ui/''], deleted_count = 0, moved_count =
     1\<rparr> \<and>
   process_file ''client/src/components/ui/'' ''alert-dialog.tsx'' \<lparr>fs = Dir True True
     [(''alert-dialog.tsx'', Dir True True []), (''alert.tsx'', File ''c''), (''client'', Dir
     True True [(''src'', Dir True True [(''components'', Dir True True [(''ui'', Dir True True
     [(''alert-dialog.tsx'', File ''b''), (''accordion.tsx'', File ''a'')])])])])], out =
     [''Moving accordion.tsx to client/src/components/ui/''], deleted_count = 0, moved_count =
     1\<rparr> = Inl (IsADirectoryError, \<lparr>fs = Dir True True [(''alert-dialog.tsx'', Dir
     True True []), (''alert.tsx'', File ''c''), (''client'', Dir True True [(''src'', Dir True
     True [(''components'', Dir True True [(''ui'', Dir True True [(''alert-dialog.tsx'', File
     ''b''), (''accordion.tsx'', File ''a'')])])])])], out =
     [''Moving accordion.tsx to client/src/components/ui/'',
     ''Removing duplicate: alert-dialog.tsx (already in client/src/components/ui/)''],
     deleted_count = 0, moved_count = 1\<rparr>) \<and>
   cleanup (Dir True True [(''accordion.tsx'', File ''a''), (''alert-dialog.tsx'', Dir True
     True []), (''alert.tsx'', File ''c''), (''client'', Dir True True [(''src'', Dir True True
     [(''components'', Dir True True [(''ui'', Dir True True [(''alert-dialog.tsx'', File
     ''b'')])])])])]) = Inl (IsADirectoryError, \<lparr>fs = Dir True True
     [(''alert-dialog.tsx'', Dir True True []), (''alert.tsx'', File ''c''), (''client'', Dir
     True True [(''src'', Dir True True [(''components'', Dir True True [(''ui'', Dir True True
     [(''alert-dialog.tsx'', File ''b''), (''accordion.tsx'', File ''a'')])])])])], out =
     [''Moving accordion.tsx to client/src/components/ui/'',
     ''Removing duplicate: alert-dialog.tsx (already in client/src/components/ui/)''],
     deleted_count = 0, moved_count = 1\<rparr>) \<and>
   (''client/src/components/ui/'', ''alert.tsx'') \<in> set (drop 2 (flat mapping)) \<and>
   link_free (Dir True True [(''accordion.tsx'', File ''a''), (''alert-dialog.tsx'', Dir True
     True []), (''alert.tsx'', File ''c''), (''client'', Dir True True [(''src'', Dir True True
     [(''components'', Dir True True [(''ui'', Dir True True [(''alert-dialog.tsx'', File
     ''b'')])])])])]) \<and>
   map_option entry_of (lookup_node (Dir True True [(''alert-dialog.tsx'', Dir True True []),
     (''alert.tsx'', File ''c''), (''client'', Dir True True [(''src'', Dir True True
     [(''components'', Dir True True [(''ui'', Dir True True [(''alert-dialog.tsx'', File
     ''b''), (''accordion.tsx'', File ''a'')])])])])]) (split_path ''alert.tsx'')) = map_option
     entry_of (lookup_node (Dir True True [(''accordion.tsx'', File ''a''),
     (''alert-dialog.tsx'', Dir True True []), (''alert.tsx'', File ''c''), (''client'', Dir
     True True [(''src'', Dir True True [(''components'', Dir True True [(''ui'', Dir True True
     [(''alert-dialog.tsx'', File ''b'')])])])])]) (split_path ''alert.tsx'')) \<and>
   lookup_node (Dir True True [(''alert-dialog.tsx'', Dir True True []), (''alert.tsx'', File
     ''c''), (''client'', Dir True True [(''src'', Dir True True [(''components'', Dir True
     True [(''ui'', Dir True True [(''alert-dialog.tsx'', File ''b''), (''accordion.tsx'', File
     ''a'')])])])])]) (split_path ''alert.tsx'') = lookup_node (Dir True True
     [(''accordion.tsx'', File ''a''), (''alert-dialog.tsx'', Dir True True []),
     (''alert.tsx'', File ''c''), (''client'', Dir True True [(''src'', Dir True True
     [(''components'', Dir True True [(''ui'', Dir True True [(''alert-dialog.tsx'', File
     ''b'')])])])])]) (split_path ''alert.tsx'')"
proof -
  let ?t = "Dir True True [(''accordion.tsx'', File ''a''), (''alert-dialog.tsx'', Dir True
     True []), (''alert.tsx'', File ''c''), (''client'', Dir True True [(''src'', Dir True True
     [(''components'', Dir True True [(''ui'', Dir True True [(''alert-dialog.tsx'', File
     ''b'')])])])])]"
  let ?s2 = "\<lparr>fs = Dir True True [(''alert-dialog.tsx'', Dir True True []),
     (''alert.tsx'', File ''c''), (''client'', Dir True True [(''src'', Dir True True
     [(''components'', Dir True True [(''ui'', Dir True True [(''alert-dialog.tsx'', File
     ''b''), (''accordion.tsx'', File ''a'')])])])])], out =
     [''Moving accordion.tsx to client/src/components/ui/'',
     ''Removing duplicate: alert-dialog.tsx (already in client/src/components/ui/)''],
     deleted_count = 0, moved_count = 1\<rparr>"
  have 1: "root_files_of (Dir True True [(''accordion.tsx'', File ''a''),
     (''alert-dialog.tsx'', Dir True True []), (''alert.tsx'', File ''c''), (''client'', Dir
     True True [(''src'', Dir True True [(''components'', Dir True True [(''ui'', Dir True True
     [(''alert-dialog.tsx'', File ''b'')])])])])]) = Inr [''accordion.tsx'', ''alert.tsx'']" by
     code_simp
  have 2: "flat mapping = [(''client/src/components/ui/'', ''accordion.tsx'')] @
     (''client/src/components/ui/'', ''alert-dialog.tsx'') # drop 2 (flat mapping)"
    by code_simp
  have 3: "run [(''client/src/components/ui/'', ''accordion.tsx'')] (start (Dir True True
     [(''accordion.tsx'', File ''a''), (''alert-dialog.tsx'', Dir True True []),
     (''alert.tsx'', File ''c''), (''client'', Dir True True [(''src'', Dir True True
     [(''components'', Dir True True [(''ui'', Dir True True [(''alert-dialog.tsx'', File
     ''b'')])])])])])) = Inr \<lparr>fs = Dir True True [(''alert-dialog.tsx'', Dir True True
     []), (''alert.tsx'', File ''c''), (''client'', Dir True True [(''src'', Dir True True
     [(''components'', Dir True True [(''ui'', Dir True True [(''alert-dialog.tsx'', File
     ''b''), (''accordion.tsx'', File ''a'')])])])])], out =
     [''Moving accordion.tsx to client/src/components/ui/''], deleted_count = 0, moved_count =
     1\<rparr>"
    by code_simp
  have 4: "process_file ''client/src/components/ui/'' ''alert-dialog.tsx'' \<lparr>fs = Dir
     True True [(''alert-dialog.tsx'', Dir True True []), (''alert.tsx'', File ''c''),
     (''client'', Dir True True [(''src'', Dir True True [(''components'', Dir True True
     [(''ui'', Dir True True [(''alert-dialog.tsx'', File ''b''), (''accordion.tsx'', File
     ''a'')])])])])], out = [''Moving accordion.tsx to client/src/components/ui/''],
     deleted_count = 0, moved_count = 1\<rparr> = Inl (IsADirectoryError, \<lparr>fs = Dir True
     True [(''alert-dialog.tsx'', Dir True True []), (''alert.tsx'', File ''c''), (''client'',
     Dir True True [(''src'', Dir True True [(''components'', Dir True True [(''ui'', Dir True
     True [(''alert-dialog.tsx'', File ''b''), (''accordion.tsx'', File ''a'')])])])])], out =
     [''Moving accordion.tsx to client/src/components/ui/'',
     ''Removing duplicate: alert-dialog.tsx (already in client/src/components/ui/)''],
     deleted_count = 0, moved_count = 1\<rparr>)"
    by code_simp
  have 5: "(''client/src/components/ui/'', ''alert.tsx'') \<in> set (drop 2 (flat mapping))"
    by code_simp
  have 6: "link_free ?t" by code_simp
  from failure_halts_run [OF 1 2 3 4] have
    "cleanup ?t = Inl (IsADirectoryError, ?s2)"
    "\<forall>p \<in> set (drop 2 (flat mapping)).
       map_option entry_of (lookup_node (fs ?s2) (split_path (snd p)))
       = map_option entry_of (lookup_node ?t (split_path (snd p)))"
    "link_free ?t \<longrightarrow> (\<forall>p \<in> set (drop 2 (flat mapping)).
       lookup_node (fs ?s2) (split_path (snd p)) = lookup_node ?t (split_path (snd p)))"
    by simp_all
  with 1 2 3 4 5 6 show ?thesis by fastforce
qed

lemma run_line_kinds:
  "run ps s = Inr s' \<Longrightarrow>
   \<exists>ls. out s' = out s @ ls \<and>
     (\<forall>l \<in> set ls. \<exists>p \<in> set ps. l = removing_msg (snd p) (fst p) \<or> l = moving_msg (snd p) (fst p))"
proof (induction ps arbitrary: s)
  case Nil
  then show ?case by simp
next
  case (Cons p ps)
  then obtain s1 where s1: "process_file (fst p) (snd p) s = Inr s1" and r: "run ps s1 = Inr s'"
    by (auto split: sum.splits)
  from Cons.IH [OF r] obtain ls where ls: "out s' = out s1 @ ls"
    "\<forall>l \<in> set ls. \<exists>q \<in> set ps. l = removing_msg (snd q) (fst q) \<or> l = moving_msg (snd q) (fst q)"
    by blast
  let ?a = "if os_path_exists (fs s) (snd p)
            then [if os_path_exists (fs s) (os_path_join (fst p) (snd p))
                  then removing_msg (snd p) (fst p) else moving_msg (snd p) (fst p)]
            else []"
  have a: "out s1 = out s @ ?a"
    using process_file_counts(3) [OF s1] by simp
  have "out s' = out s @ (?a @ ls)"
    using ls(1) a by simp
  moreover have "\<forall>l \<in> set (?a @ ls). \<exists>q \<in> set (p # ps).
      l = removing_msg (snd q) (fst q) \<or> l = moving_msg (snd q) (fst q)"
    using ls(2) by auto
  ultimately show ?case by blast
qed

text \<open>
  Claim C7, amended. \<open>cleanup\<close> has no \<^verbatim>\<open>return\<close> statement: its caller receives
  \<^verbatim>\<open>None\<close>, not the pair of counters (see the counterexample below). A run that
  completes without an error prints one line for each action, a removing or a moving line
  of an entry of the table, as many lines as the two counters add up to, and then the
  summary line, which carries the final values of the two counters. On a tree without
  symbolic links the action lines are those of the listed filenames found at the root
  when the run started, in iteration order.
\<close>

theorem cleanup_returns_none_and_prints:
  assumes "cleanup t = Inr (s, v)"
  shows "v = PyNone \<and>
         out s \<noteq> [] \<and> last (out s) = finished_msg (deleted_count s) (moved_count s) \<and>
         int (length (out s)) = deleted_count s + moved_count s + 1 \<and>
         (\<forall>l \<in> set (butlast (out s)). \<exists>p \<in> set (flat mapping).
            l = removing_msg (snd p) (fst p) \<or> l = moving_msg (snd p) (fst p)) \<and>
         (link_free t \<longrightarrow>
            out s = map (action_msg t) (filter (\<lambda>p. os_path_exists t (snd p)) (flat mapping))
                    @ [finished_msg (deleted_count s) (moved_count s)])"
proof -
  from assms obtain s' where r: "run (flat mapping) (start t) = Inr s'"
    and s: "s = print (finished_msg (deleted_count s') (moved_count s')) s'"
    and v: "v = PyNone"
    by (rule cleanup_Inr)
  have 1: "int (length (out s)) = deleted_count s + moved_count s + 1"
    using run_lines [OF r] s by simp
  from run_line_kinds [OF r] have 2: "\<forall>l \<in> set (butlast (out s)). \<exists>p \<in> set (flat mapping).
            l = removing_msg (snd p) (fst p) \<or> l = moving_msg (snd p) (fst p)"
    using s by auto
  have 3: "out s = map (action_msg t) (filter (\<lambda>p. os_path_exists t (snd p)) (flat mapping))
                    @ [finished_msg (deleted_count s) (moved_count s)]" if "link_free t"
    using run_counts(3) [OF wf_mapping _ r] that s by simp
  from 1 2 3 s v show ?thesis by simp
qed

theorem cleanup_returns_no_pair_counterexample:
  "cleanup (Dir True True [(''readme.md'', File ''r'')]) = Inr (\<lparr>fs = Dir True True
     [(''readme.md'', File ''r'')], out = [''Cleanup finished. Deleted: 0, Moved: 0''],
     deleted_count = 0, moved_count = 0\<rparr>, PyNone) \<and>
   cleanup (Dir True True [(''readme.md'', File ''r'')]) \<noteq> Inr (\<lparr>fs = Dir True
     True [(''readme.md'', File ''r'')], out = [''Cleanup finished. Deleted: 0, Moved: 0''],
     deleted_count = 0, moved_count = 0\<rparr>, PyTuple [PyInt 0, PyInt 0])"
  by code_simp

theorem cleanup_returns_none_and_prints_witness:
  "cleanup (Dir True True [(''games.ts'', File ''g''), (''wallet.ts'', File ''w''),
     (''server'', Dir True True [(''wallet.ts'', File ''v'')])]) = Inr (\<lparr>fs = Dir True
     True [(''server'', Dir True True [(''wallet.ts'', File ''v''), (''games.ts'', File
     ''g'')])], out = [''Moving games.ts to server/'',
     ''Removing duplicate: wallet.ts (already in server/)'',
     ''Cleanup finished. Deleted: 1, Moved: 1''], deleted_count = 1, moved_count = 1\<rparr>,
     PyNone) \<and>
   link_free (Dir True True [(''games.ts'', File ''g''), (''wallet.ts'', File ''w''),
     (''server'', Dir True True [(''wallet.ts'', File ''v'')])]) \<and>
   last [''Moving games.ts to server/'',
     ''Removing duplicate: wallet.ts (already in server/)'',
     ''Cleanup finished. Deleted: 1, Moved: 1''] = finished_msg 1 1 \<and>
   int (length [''Moving games.ts to server/'',
     ''Removing duplicate: wallet.ts (already in server/)'',
     ''Cleanup finished. Deleted: 1, Moved: 1'']) = 1 + 1 + 1 \<and>
   [''Moving games.ts to server/'', ''Removing duplicate: wallet.ts (already in server/)'',
     ''Cleanup finished. Deleted: 1, Moved: 1''] = map (action_msg (Dir True True
     [(''games.ts'', File ''g''), (''wallet.ts'', File ''w''), (''server'', Dir True True
     [(''wallet.ts'', File ''v'')])])) (filter (\<lambda>p. os_path_exists (Dir True True
     [(''games.ts'', File ''g''), (''wallet.ts'', File ''w''), (''server'', Dir True True
     [(''wallet.ts'', File ''v'')])]) (snd p)) (flat mapping)) @ [finished_msg 1 1]"
proof -
  let ?t = "Dir True True [(''games.ts'', File ''g''), (''wallet.ts'', File ''w''),
     (''server'', Dir True True [(''wallet.ts'', File ''v'')])]"
  let ?s = "\<lparr>fs = Dir True True [(''server'', Dir True True [(''wallet.ts'', File
     ''v''), (''games.ts'', File ''g'')])], out = [''Moving games.ts to server/'',
     ''Removing duplicate: wallet.ts (already in server/)'',
     ''Cleanup finished. Deleted: 1, Moved: 1''], deleted_count = 1, moved_count = 1\<rparr>"
  have 1: "cleanup ?t = Inr (?s, PyNone)" by code_simp
  have 2: "link_free ?t" by code_simp
  from cleanup_returns_none_and_prints [OF 1] 1 2 show ?thesis by simp
qed

lemma map_Pair_removeAll:
  "map (Pair d) (removeAll f files) = filter (\<lambda>p. snd p \<noteq> f) (map (Pair d) files)"
  by (induction files) auto

lemma flat_unlist: "flat (unlist f m) = filter (\<lambda>p. snd p \<noteq> f) (flat m)"
  by (induction m) (auto simp: flat_def unlist_def map_Pair_removeAll)

lemma fs_final_cleanup_with:
  "fs (final_state (cleanup_with m rf t)) = fs (state_of (run (flat m) (start t)))"
  by (cases "run (flat m) (start t)") (auto simp: cleanup_with_def for_items_run)

text \<open>
  Claim C8, amended. As stated the claim fails (counterexample below). A dangling
  symbolic link at the root does not exist when the run starts, yet it is moved and
  counted once the run has moved its target into place. And with no root entry of that
  name at all, what the target path holds can vanish, when the target directory is a
  symbolic link to a root entry that the run moves away. On a tree without symbolic
  links: for a listed filename that does not exist at the root when \<open>cleanup\<close> starts,
  in the state in which the run ends (returning or raising) it still does not exist at
  the root and its target path holds what it held before. No counter is incremented for
  it: the whole outcome of the loop (tree, output, counters, error) is the one of the
  script with that filename struck from the table.
\<close>

theorem absent_file_is_left_alone:
  assumes "link_free t" and "(d, f) \<in> set (flat mapping)" and "\<not> os_path_exists t f"
  shows "\<not> os_path_exists (fs (final_state (cleanup t))) f \<and>
         node_at (fs (final_state (cleanup t))) (os_path_join d f)
           = node_at t (os_path_join d f) \<and>
         cleanup_with (unlist f mapping) root_files t = cleanup_with mapping root_files t"
proof -
  let ?ps = "flat mapping" and ?qs = "filter (\<lambda>p. snd p \<noteq> f) (flat mapping)"
  have f: "plain_name f" using assms(2) by (rule flat_plain)
  have up: "''..'' \<notin> set (split_path d)" using assms(2) by (rule flat_down)
  have ok: "\<forall>p \<in> set ?ps. entry_ok p \<and> f \<notin> set (split_path (fst p))"
  proof
    fix p assume p: "p \<in> set ?ps"
    have "snd (d, f) \<notin> set (split_path (fst p))"
      using wf_mapping p assms(2) unfolding wf_pairs_def by blast
    then show "entry_ok p \<and> f \<notin> set (split_path (fst p))"
      using wf_pairs_entry_ok [OF wf_mapping p] by simp
  qed
  have same: "run ?qs (start t) = run ?ps (start t)"
    using ok f assms(1,3) by (intro run_unlisted) simp_all
  have 3: "cleanup_with (unlist f mapping) root_files t = cleanup_with mapping root_files t"
    using same by (simp add: cleanup_with_def for_items_run flat_unlist)
  show ?thesis
  proof (cases "root_files_of t")
    case (Inl e)
    then have "fs (final_state (cleanup t)) = t"
      by (simp add: cleanup_unlisted)
    with assms(3) 3 show ?thesis by simp
  next
    case (Inr names)
    then have c: "fs (final_state (cleanup t)) = fs (state_of (run ?qs (start t)))"
      using cleanup_listed [OF Inr, of "[]"] fs_final_cleanup_with [of mapping "[]" t] same
      by simp
    have apart: "\<forall>p \<in> set ?qs. entry_ok p \<and> \<not> touches p [f] \<and> \<not> touches p (target (d, f))"
    proof
      fix p assume "p \<in> set ?qs"
      then have p: "p \<in> set ?ps" and ne: "snd p \<noteq> snd (d, f)" by simp_all
      show "entry_ok p \<and> \<not> touches p [f] \<and> \<not> touches p (target (d, f))"
        using wf_pairs_apart [OF wf_mapping p assms(2) ne] wf_pairs_entry_ok [OF wf_mapping p]
        by simp
    qed
    have lf': "link_free (fs (state_of (run ?qs (start t))))"
      using run_link_free [of ?qs "start t"] apart assms(1) by simp
    have root: "lookup_node (fs (state_of (run ?qs (start t)))) [f] = lookup_node t [f]"
      using run_frame [of ?qs "[f]" "start t"] apart assms(1) by simp
    have tgt: "lookup_node (fs (state_of (run ?qs (start t)))) (target (d, f))
        = lookup_node t (target (d, f))"
      using run_frame [of ?qs "target (d, f)" "start t"] apart assms(1) by simp
    have 1: "\<not> os_path_exists (fs (final_state (cleanup t))) f"
      using root assms(1,3) f lf' c by (simp add: exists_root)
    have 2: "node_at (fs (final_state (cleanup t))) (os_path_join d f)
             = node_at t (os_path_join d f)"
      using tgt f up assms(1) lf' c by (simp add: node_at_target)
    from 1 2 3 show ?thesis by simp
  qed
qed

theorem absent_file_can_be_moved_or_lose_target_counterexample:
  "(''server/'', ''db.ts'') \<in> set (flat mapping) \<and>
   \<not> os_path_exists (Dir True True [(''auth.ts'', File ''a''), (''db.ts'', Link
     ''server/auth.ts''), (''server'', Dir True True [])]) ''db.ts'' \<and>
   cleanup (Dir True True [(''auth.ts'', File ''a''), (''db.ts'', Link ''server/auth.ts''),
     (''server'', Dir True True [])]) = Inr (\<lparr>fs = Dir True True [(''server'', Dir True
     True [(''auth.ts'', File ''a''), (''db.ts'', Link ''server/auth.ts'')])], out =
     [''Moving auth.ts to server/'', ''Moving db.ts to server/'',
     ''Cleanup finished. Deleted: 0, Moved: 2''], deleted_count = 0, moved_count = 2\<rparr>,
     PyNone) \<and>
   cleanup_with mapping [] (Dir True True [(''auth.ts'', File ''a''), (''db.ts'', Link
     ''server/auth.ts''), (''server'', Dir True True [])]) = Inr (\<lparr>fs = Dir True True
     [(''server'', Dir True True [(''auth.ts'', File ''a''), (''db.ts'', Link
     ''server/auth.ts'')])], out = [''Moving auth.ts to server/'', ''Moving db.ts to server/'',
     ''Cleanup finished. Deleted: 0, Moved: 2''], deleted_count = 0, moved_count = 2\<rparr>,
     PyNone) \<and>
   cleanup_with (unlist ''db.ts'' mapping) [] (Dir True True [(''auth.ts'', File ''a''),
     (''db.ts'', Link ''server/auth.ts''), (''server'', Dir True True [])]) = Inr (\<lparr>fs =
     Dir True True [(''db.ts'', Link ''server/auth.ts''), (''server'', Dir True True
     [(''auth.ts'', File ''a'')])], out = [''Moving auth.ts to server/'',
     ''Cleanup finished. Deleted: 0, Moved: 1''], deleted_count = 0, moved_count = 1\<rparr>,
     PyNone) \<and>
   lookup_node (Dir True True [(''index.html'', Dir True True [(''db.ts'', File ''d'')]),
     (''server'', Link ''index.html''), (''client'', Dir True True [])]) [''db.ts''] = None
     \<and>
   \<not> os_path_exists (Dir True True [(''index.html'', Dir True True [(''db.ts'', File
     ''d'')]), (''server'', Link ''index.html''), (''client'', Dir True True [])]) ''db.ts''
     \<and>
   os_path_exists (Dir True True [(''index.html'', Dir True True [(''db.ts'', File ''d'')]),
     (''server'', Link ''index.html''), (''client'', Dir True True [])]) (os_path_join
     ''server/'' ''db.ts'') \<and>
   cleanup (Dir True True [(''index.html'', Dir True True [(''db.ts'', File ''d'')]),
     (''server'', Link ''index.html''), (''client'', Dir True True [])]) = Inr (\<lparr>fs =
     Dir True True [(''server'', Link ''index.html''), (''client'', Dir True True
     [(''index.html'', Dir True True [(''db.ts'', File ''d'')])])], out =
     [''Moving index.html to client/'', ''Cleanup finished. Deleted: 0, Moved: 1''],
     deleted_count = 0, moved_count = 1\<rparr>, PyNone) \<and>
   \<not> os_path_exists (Dir True True [(''server'', Link ''index.html''), (''client'', Dir
     True True [(''index.html'', Dir True True [(''db.ts'', File ''d'')])])]) (os_path_join
     ''server/'' ''db.ts'')"
  by code_simp

theorem absent_file_is_left_alone_witness:
  "link_free (Dir True True [(''server'', Dir True True [(''db.ts'', File ''d'')])]) \<and>
   (''server/'', ''db.ts'') \<in> set (flat mapping) \<and>
   \<not> os_path_exists (Dir True True [(''server'', Dir True True [(''db.ts'', File
     ''d'')])]) ''db.ts'' \<and>
   \<not> os_path_exists (fs (final_state (cleanup (Dir True True [(''server'', Dir True True
     [(''db.ts'', File ''d'')])])))) ''db.ts'' \<and>
   node_at (fs (final_state (cleanup (Dir True True [(''server'', Dir True True [(''db.ts'',
     File ''d'')])])))) (os_path_join ''server/'' ''db.ts'') = node_at (Dir True True
     [(''server'', Dir True True [(''db.ts'', File ''d'')])]) (os_path_join ''server/''
     ''db.ts'') \<and>
   cleanup_with (unlist ''db.ts'' mapping) [] (Dir True True [(''server'', Dir True True
     [(''db.ts'', File ''d'')])]) = cleanup_with mapping [] (Dir True True [(''server'', Dir
     True True [(''db.ts'', File ''d'')])])"
proof -
  let ?t = "Dir True True [(''server'', Dir True True [(''db.ts'', File ''d'')])]"
  have 0: "link_free ?t" by code_simp
  have 1: "(''server/'', ''db.ts'') \<in> set (flat mapping)" by code_simp
  have 2: "\<not> os_path_exists ?t ''db.ts''" by code_simp
  from absent_file_is_left_alone [OF 0 1 2, of "[]"] 0 1 2 show ?thesis by simp
qed

text \<open>
  Claim C9. In the dictionary literal no filename is listed twice, neither in one list
  nor under two target directories.
\<close>

theorem mapping_filenames_unique: "distinct (concat (map snd mapping))"
  by (rule names_distinct)

lemma node_at_entry:
  assumes "plain_name f" and "lookup_node t [f] = Some n" and "\<And>x. n \<noteq> Link x"
  shows "node_at t f = Some n"
proof -
  from assms(1) have up: "f \<noteq> ''..''" by (simp add: plain_name_def)
  from assms(2) obtain r w es where t: "t = Dir r w es" and e: "map_of es f = Some n"
    by (cases t) (auto split: option.splits)
  show ?thesis
    using assms(3) e up unfolding t
    by (cases n) (auto simp: node_at_def split_path_plain [OF assms(1)])
qed

lemma node_at_link:
  assumes "plain_name f" and "lookup_node t [f] = Some (Link x)"
  shows "node_at t f =
           (if x = [] then None
            else (case walk (max_links - 1) t True [] (split_path x) of
                    Inl e \<Rightarrow> None | Inr q \<Rightarrow> lookup_node t q))"
proof -
  from assms(1) have up: "f \<noteq> ''..''" by (simp add: plain_name_def)
  from assms(2) obtain r w es where t: "t = Dir r w es" and e: "map_of es f = Some (Link x)"
    by (cases t) (auto split: option.splits)
  show ?thesis
    using e up unfolding t
    by (simp add: node_at_def split_path_plain [OF assms(1)] max_links_def)
qed

text \<open>
  Claim C10, amended. As stated the claim fails in two ways, both in the counterexample
  below. A dangling symbolic link is a root entry of that name, yet \<^verbatim>\<open>os.path.exists\<close>
  is false for it and the step does nothing. And line 5 can raise, in a working directory
  that the process may not read: the run then ends before anything is printed or moved,
  where the rest of the function would have moved a file. What holds: the step for a
  listed filename does nothing exactly when \<^verbatim>\<open>os.path.exists\<close> is false for it; a
  regular file and a directory of that name both satisfy \<^verbatim>\<open>os.path.exists\<close>, and
  \<^verbatim>\<open>os.path.isfile\<close> only the first, so a directory is not in the list of line 5; a
  symbolic link of that name counts for what its target resolves to, if anything; the
  value of that list has no influence on the run, since the rest of the function gives
  the same outcome for any two lists; and line 5 matters only through raising: when it
  returns, \<open>cleanup\<close> gives the outcome of the rest of the function, and when it raises,
  \<open>cleanup\<close> raises the same error with nothing printed and nothing changed.
\<close>

theorem presence_by_exists_only:
  assumes "(d, f) \<in> set (flat mapping)"
  shows "(process_file d f s = Inr s \<longleftrightarrow> \<not> os_path_exists (fs s) f) \<and>
   (lookup_node t [f] = Some (File c) \<longrightarrow> os_path_exists t f \<and> os_path_isfile t f) \<and>
   (lookup_node t [f] = Some (Dir r w es) \<longrightarrow> os_path_exists t f \<and> \<not> os_path_isfile t f) \<and>
   (lookup_node t [f] = Some (Link x) \<longrightarrow>
      node_at t f =
        (if x = [] then None
         else (case walk (max_links - 1) t True [] (split_path x) of
                 Inl e' \<Rightarrow> None | Inr q \<Rightarrow> lookup_node t q))) \<and>
   cleanup_body root_files t = cleanup_body root_files' t \<and>
   (root_files_of t = Inr root_files \<longrightarrow> cleanup t = cleanup_body root_files' t) \<and>
   (root_files_of t = Inl e \<longrightarrow> cleanup t = Inl (e, start t))"
proof -
  have f: "plain_name f" using assms by (rule flat_plain)
  have 1: "process_file d f s = Inr s \<longleftrightarrow> \<not> os_path_exists (fs s) f"
  proof
    assume "process_file d f s = Inr s"
    from process_file_counts(3) [OF this] show "\<not> os_path_exists (fs s) f"
      by (auto split: if_splits)
  next
    assume "\<not> os_path_exists (fs s) f"
    then show "process_file d f s = Inr s" by (rule process_file_skip)
  qed
  have 2: "lookup_node t [f] = Some (File c) \<longrightarrow> os_path_exists t f \<and> os_path_isfile t f"
    using node_at_entry [OF f, of t "File c"]
    by (simp add: os_path_exists_def os_path_isfile_def)
  have 3: "lookup_node t [f] = Some (Dir r w es) \<longrightarrow> os_path_exists t f \<and> \<not> os_path_isfile t f"
    using node_at_entry [OF f, of t "Dir r w es"]
    by (simp add: os_path_exists_def os_path_isfile_def)
  have 4: "cleanup_body root_files t = cleanup_body root_files' t"
    by (simp add: cleanup_body_def cleanup_with_def)
  have 5: "root_files_of t = Inr root_files \<longrightarrow> cleanup t = cleanup_body root_files' t"
    using 4 by (auto simp: cleanup_def cleanup_body_def cleanup_with_def)
  have 6: "root_files_of t = Inl e \<longrightarrow> cleanup t = Inl (e, start t)"
    by (simp add: cleanup_unlisted)
  have 7: "lookup_node t [f] = Some (Link x) \<longrightarrow>
      node_at t f =
        (if x = [] then None
         else (case walk (max_links - 1) t True [] (split_path x) of
                 Inl e' \<Rightarrow> None | Inr q \<Rightarrow> lookup_node t q))"
    using node_at_link [OF f, of t x] by simp
  from 1 2 3 4 5 6 7 show ?thesis by blast
qed

theorem dangling_link_and_unreadable_root_counterexample:
  "(''server/'', ''auth.ts'') \<in> set (flat mapping) \<and>
   lookup_node (Dir True True [(''auth.ts'', Link ''gone.ts''), (''server'', Dir True True
     [])]) [''auth.ts''] = Some (Link ''gone.ts'') \<and>
   \<not> os_path_exists (Dir True True [(''auth.ts'', Link ''gone.ts''), (''server'', Dir True
     True [])]) ''auth.ts'' \<and>
   process_file ''server/'' ''auth.ts'' (start (Dir True True [(''auth.ts'', Link ''gone.ts''),
     (''server'', Dir True True [])])) = Inr (start (Dir True True [(''auth.ts'', Link
     ''gone.ts''), (''server'', Dir True True [])])) \<and>
   root_files_of (Dir False True [(''auth.ts'', File ''a''), (''server'', Dir True True [])]) =
     Inl PermissionError \<and>
   cleanup (Dir False True [(''auth.ts'', File ''a''), (''server'', Dir True True [])]) = Inl
     (PermissionError, \<lparr>fs = Dir False True [(''auth.ts'', File ''a''), (''server'', Dir
     True True [])], out = [], deleted_count = 0, moved_count = 0\<rparr>) \<and>
   cleanup_body [] (Dir False True [(''auth.ts'', File ''a''), (''server'', Dir True True [])])
     = Inr (\<lparr>fs = Dir False True [(''server'', Dir True True [(''auth.ts'', File
     ''a'')])], out = [''Moving auth.ts to server/'',
     ''Cleanup finished. Deleted: 0, Moved: 1''], deleted_count = 0, moved_count = 1\<rparr>,
     PyNone)"
  by code_simp

theorem presence_by_exists_only_witness:
  "(''server/'', ''auth.ts'') \<in> set (flat mapping) \<and>
   lookup_node (Dir True True [(''auth.ts'', Dir True True [(''notes'', File ''n'')]),
     (''server'', Dir True True [])]) [''auth.ts''] = Some (Dir True True [(''notes'', File
     ''n'')]) \<and>
   os_path_exists (Dir True True [(''auth.ts'', Dir True True [(''notes'', File ''n'')]),
     (''server'', Dir True True [])]) ''auth.ts'' \<and>
   \<not> os_path_isfile (Dir True True [(''auth.ts'', Dir True True [(''notes'', File
     ''n'')]), (''server'', Dir True True [])]) ''auth.ts'' \<and>
   root_files_of (Dir True True [(''auth.ts'', Dir True True [(''notes'', File ''n'')]),
     (''server'', Dir True True [])]) = Inr [] \<and>
   process_file ''server/'' ''auth.ts'' (start (Dir True True [(''auth.ts'', Dir True True
     [(''notes'', File ''n'')]), (''server'', Dir True True [])])) \<noteq> Inr (start (Dir
     True True [(''auth.ts'', Dir True True [(''notes'', File ''n'')]), (''server'', Dir True
     True [])])) \<and>
   cleanup (Dir True True [(''auth.ts'', Dir True True [(''notes'', File ''n'')]), (''server'',
     Dir True True [])]) = cleanup_body [''auth.ts''] (Dir True True [(''auth.ts'', Dir True
     True [(''notes'', File ''n'')]), (''server'', Dir True True [])]) \<and>
   lookup_node (Dir True True [(''auth.ts'', File ''a''), (''server'', Dir True True [])])
     [''auth.ts''] = Some (File ''a'') \<and>
   os_path_exists (Dir True True [(''auth.ts'', File ''a''), (''server'', Dir True True [])])
     ''auth.ts'' \<and>
   os_path_isfile (Dir True True [(''auth.ts'', File ''a''), (''server'', Dir True True [])])
     ''auth.ts'' \<and>
   lookup_node (Dir True True [(''auth.ts'', Link ''server/real.ts''), (''server'', Dir True
     True [(''real.ts'', File ''r'')])]) [''auth.ts''] = Some (Link ''server/real.ts'') \<and>
   node_at (Dir True True [(''auth.ts'', Link ''server/real.ts''), (''server'', Dir True True
     [(''real.ts'', File ''r'')])]) ''auth.ts'' = Some (File ''r'') \<and>
   root_files_of (Dir False True [(''auth.ts'', File ''a''), (''server'', Dir True True [])]) =
     Inl PermissionError \<and>
   cleanup (Dir False True [(''auth.ts'', File ''a''), (''server'', Dir True True [])]) = Inl
     (PermissionError, start (Dir False True [(''auth.ts'', File ''a''), (''server'', Dir True
     True [])]))"
proof -
  let ?d = "Dir True True [(''auth.ts'', Dir True True [(''notes'', File ''n'')]), (''server'',
     Dir True True [])]"
  let ?f = "Dir True True [(''auth.ts'', File ''a''), (''server'', Dir True True [])]"
  let ?l = "Dir True True [(''auth.ts'', Link ''server/real.ts''), (''server'', Dir True True
     [(''real.ts'', File ''r'')])]"
  let ?u = "Dir False True [(''auth.ts'', File ''a''), (''server'', Dir True True [])]"
  have m: "(''server/'', ''auth.ts'') \<in> set (flat mapping)" by code_simp
  have 1: "lookup_node ?d [''auth.ts''] = Some (Dir True True [(''notes'', File ''n'')])" by
     code_simp
  have 2: "root_files_of ?d = Inr []" by code_simp
  have 3: "lookup_node ?f [''auth.ts''] = Some (File ''a'')" by code_simp
  have 4: "lookup_node ?l [''auth.ts''] = Some (Link ''server/real.ts'')" by code_simp
  have 5: "(if ''server/real.ts'' = [] then None
            else (case walk (max_links - 1) ?l True [] (split_path ''server/real.ts'') of
                    Inl e \<Rightarrow> None | Inr q \<Rightarrow> lookup_node ?l q)) = Some
     (File ''r'')"
    by code_simp
  have 6: "root_files_of ?u = Inl PermissionError" by code_simp
  have a: "os_path_exists ?d ''auth.ts'' \<and> \<not> os_path_isfile ?d ''auth.ts'' \<and>
      process_file ''server/'' ''auth.ts'' (start ?d) \<noteq> Inr (start ?d) \<and>
      cleanup ?d = cleanup_body [''auth.ts''] ?d"
    using presence_by_exists_only [OF m, of "start ?d" ?d _ True True "[(''notes'', File
     ''n'')]" _ "[]" "[''auth.ts'']"] 1 2
    by (simp add: start_def)
  have b: "os_path_exists ?f ''auth.ts'' \<and> os_path_isfile ?f ''auth.ts''"
    using presence_by_exists_only [OF m, of _ ?f "''a''"] 3 by simp
  have c: "node_at ?l ''auth.ts'' = Some (File ''r'')"
    using presence_by_exists_only [OF m, of _ ?l _ _ _ _ "''server/real.ts''"] 4 5 by simp
  have d: "cleanup ?u = Inl (PermissionError, start ?u)"
    using presence_by_exists_only [OF m, of _ ?u _ _ _ _ _ _ _ PermissionError] 6 by simp
  from m 1 2 3 4 6 a b c d show ?thesis by simp
qed

end
